theory Spec2Isabelle
  imports Complex_Main "HOL-Library.Char_ord" "HOL-Library.List_Lexorder"
begin

section \<open>JavaScript values\<close>

text \<open>
  The validator of \<^verbatim>\<open>src/main/commandServer/settingsValidator.ts\<close> works on
  loosely typed data (\<^verbatim>\<open>Record<string, any>\<close>): the proposed settings are what
  \<^verbatim>\<open>JSON.parse\<close> made of the request body. A value is therefore modelled as JSON data,
  with \<^verbatim>\<open>undefined\<close> and the three non-finite numbers added. An object is the list of
  its own enumerable properties in enumeration order (the order of \<^verbatim>\<open>for ... in\<close> and of
  \<^verbatim>\<open>Object.entries\<close>). A \<open>char\<close> stands for one code unit of a string.

  Finite numbers are rationals (every finite double is one, and \<^verbatim>\<open><\<close>, \<^verbatim>\<open>>\<close> and
  \<^verbatim>\<open>===\<close> on finite doubles are the rational ones).
\<close>

datatype jsnum = NaN | PosInfinity | NegInfinity | Finite rat

datatype jsval =
    Undefined
  | Null
  | Bool bool
  | Num jsnum
  | Str string
  | Arr "jsval list"
  | Obj "(string \<times> jsval) list"

datatype exn = TypeError string

text \<open>
  The class instance \<^verbatim>\<open>this\<close>. \<open>k8sVersions\<close> is the field of the class. The other three
  fields are what the file takes from outside: the values of the enumeration
  \<^verbatim>\<open>PathManagementStrategy\<close> (imported from \<^verbatim>\<open>@/integrations/pathManager\<close>), its member
  \<^verbatim>\<open>NotSet\<close>, and the host's conversion of a finite number to a string.
\<close>

record SettingsValidator =
  k8sVersions :: "string list"
  strategyValues :: "string list"
  strategyNotSet :: string
  numberToString :: "rat \<Rightarrow> string"

definition sq :: string where
  "sq = [CHR 0x27]"

definition dq :: string where
  "dq = [CHR 0x22]"

fun typeof :: "jsval \<Rightarrow> string" where
  "typeof Undefined = ''undefined''"
| "typeof Null = ''object''"
| "typeof (Bool _) = ''boolean''"
| "typeof (Num _) = ''number''"
| "typeof (Str _) = ''string''"
| "typeof (Arr _) = ''object''"
| "typeof (Obj _) = ''object''"

text \<open>\<^verbatim>\<open>a < b\<close> on numbers: every comparison with \<^verbatim>\<open>NaN\<close> is false.\<close>

fun num_lt :: "jsnum \<Rightarrow> jsnum \<Rightarrow> bool" where
  "num_lt NaN _ = False"
| "num_lt _ NaN = False"
| "num_lt (Finite a) (Finite b) = (a < b)"
| "num_lt (Finite _) PosInfinity = True"
| "num_lt (Finite _) NegInfinity = False"
| "num_lt NegInfinity NegInfinity = False"
| "num_lt NegInfinity _ = True"
| "num_lt PosInfinity _ = False"

text \<open>\<^verbatim>\<open>a === b\<close> on numbers: \<^verbatim>\<open>NaN\<close> equals nothing, itself included.\<close>

fun num_eq :: "jsnum \<Rightarrow> jsnum \<Rightarrow> bool" where
  "num_eq NaN _ = False"
| "num_eq _ NaN = False"
| "num_eq a b = (a = b)"

fun number_string :: "SettingsValidator \<Rightarrow> jsnum \<Rightarrow> string" where
  "number_string this NaN = ''NaN''"
| "number_string this PosInfinity = ''Infinity''"
| "number_string this NegInfinity = ''-Infinity''"
| "number_string this (Finite r) = numberToString this r"

fun join :: "string \<Rightarrow> string list \<Rightarrow> string" where
  "join sep [] = []"
| "join sep [s] = s"
| "join sep (s # t # rest) = s @ sep @ join sep (t # rest)"

text \<open>Collecting results in order; the first exception wins.\<close>

fun sequence :: "(exn + 'a) list \<Rightarrow> exn + 'a list" where
  "sequence [] = Inr []"
| "sequence (Inl e # _) = Inl e"
| "sequence (Inr x # rest) = (case sequence rest of Inl e \<Rightarrow> Inl e | Inr xs \<Rightarrow> Inr (x # xs))"

text \<open>
  \<^verbatim>\<open>ToString\<close>, as a template literal, \<^verbatim>\<open>RegExp.prototype.exec\<close>, \<^verbatim>\<open>Array.prototype.join\<close>
  and the default comparison of \<^verbatim>\<open>Array.prototype.sort\<close> apply it. An array is joined
  with commas, \<^verbatim>\<open>null\<close> and \<^verbatim>\<open>undefined\<close> elements giving the empty string. A plain object
  is converted by its \<^verbatim>\<open>toString\<close> method: the inherited one answers
  \<^verbatim>\<open>[object Object]\<close>; an own property of that name is data, not a function, the
  inherited \<^verbatim>\<open>valueOf\<close> answers the object itself, and the conversion throws.
\<close>

fun to_str :: "SettingsValidator \<Rightarrow> jsval \<Rightarrow> exn + string" where
  "to_str this Undefined = Inr ''undefined''"
| "to_str this Null = Inr ''null''"
| "to_str this (Bool b) = Inr (if b then ''true'' else ''false'')"
| "to_str this (Num n) = Inr (number_string this n)"
| "to_str this (Str s) = Inr s"
| "to_str this (Arr xs) =
     (case sequence (map (\<lambda>x. if x = Undefined \<or> x = Null then Inr [] else to_str this x) xs) of
        Inl e \<Rightarrow> Inl e
      | Inr ss \<Rightarrow> Inr (join '','' ss))"
| "to_str this (Obj kvs) =
     (if ''toString'' \<in> set (map fst kvs)
      then Inl (TypeError ''Cannot convert object to primitive value'')
      else Inr ''[object Object]'')"


subsection \<open>Own properties\<close>

fun dec :: "nat \<Rightarrow> string" where
  "dec n = (if n < 10 then [''0123456789'' ! n] else dec (n div 10) @ [''0123456789'' ! (n mod 10)])"

declare dec.simps [simp del]

definition index_entries :: "'a list \<Rightarrow> (string \<times> 'a) list" where
  "index_entries xs = zip (map dec [0..<length xs]) xs"

text \<open>
  The own enumerable properties a \<^verbatim>\<open>for ... in\<close> loop visits, each with its value:
  the properties of an object, the indices of an array or of a string; nothing for the
  other primitives, \<^verbatim>\<open>null\<close> and \<^verbatim>\<open>undefined\<close> included. Nothing enumerable is
  inherited.
\<close>

fun for_in :: "jsval \<Rightarrow> (string \<times> jsval) list" where
  "for_in (Obj kvs) = kvs"
| "for_in (Arr xs) = index_entries xs"
| "for_in (Str s) = index_entries (map (\<lambda>c. Str [c]) s)"
| "for_in _ = []"

text \<open>\<^verbatim>\<open>Object.entries\<close> throws on \<^verbatim>\<open>null\<close> and \<^verbatim>\<open>undefined\<close>.\<close>

definition object_entries :: "jsval \<Rightarrow> exn + (string \<times> jsval) list" where
  "object_entries v =
     (if v = Undefined \<or> v = Null
      then Inl (TypeError ''Cannot convert undefined or null to object'')
      else Inr (for_in v))"

subsection \<open>\<^verbatim>\<open>JSON.stringify\<close>\<close>

definition hex_digit :: "nat \<Rightarrow> char" where
  "hex_digit n = ''0123456789abcdef'' ! n"

definition json_escape :: "char \<Rightarrow> string" where
  "json_escape c =
     (if c = CHR 0x22 then [CHR 0x5C, CHR 0x22]
      else if c = CHR 0x5C then [CHR 0x5C, CHR 0x5C]
      else if c = CHR 0x08 then [CHR 0x5C, CHR ''b'']
      else if c = CHR 0x0C then [CHR 0x5C, CHR ''f'']
      else if c = CHR 0x0A then [CHR 0x5C, CHR ''n'']
      else if c = CHR 0x0D then [CHR 0x5C, CHR ''r'']
      else if c = CHR 0x09 then [CHR 0x5C, CHR ''t'']
      else if (of_char c :: nat) < 32
        then [CHR 0x5C, CHR ''u'', CHR ''0'', CHR ''0'',
              hex_digit (of_char c div 16), hex_digit (of_char c mod 16)]
      else [c])"

definition json_quote :: "string \<Rightarrow> string" where
  "json_quote s = dq @ concat (map json_escape s) @ dq"

text \<open>
  The result is \<open>None\<close> where \<^verbatim>\<open>JSON.stringify\<close> answers \<^verbatim>\<open>undefined\<close>. Non-finite
  numbers are written \<^verbatim>\<open>null\<close>; so is an \<^verbatim>\<open>undefined\<close> array element; a property whose
  value is \<^verbatim>\<open>undefined\<close> is left out. On these values the function never throws: there
  is no cycle, no \<^verbatim>\<open>BigInt\<close> and no \<^verbatim>\<open>toJSON\<close> method.
\<close>

fun json_stringify :: "SettingsValidator \<Rightarrow> jsval \<Rightarrow> string option" where
  "json_stringify this Undefined = None"
| "json_stringify this Null = Some ''null''"
| "json_stringify this (Bool b) = Some (if b then ''true'' else ''false'')"
| "json_stringify this (Num n) =
     Some (case n of Finite r \<Rightarrow> numberToString this r | _ \<Rightarrow> ''null'')"
| "json_stringify this (Str s) = Some (json_quote s)"
| "json_stringify this (Arr xs) =
     Some (''['' @ join '','' (map (\<lambda>x. case json_stringify this x of
                                          None \<Rightarrow> ''null'' | Some s \<Rightarrow> s) xs) @ '']'')"
| "json_stringify this (Obj kvs) =
     Some (''{'' @ join '','' (concat (map (\<lambda>kv. case json_stringify this (snd kv) of
                                                  None \<Rightarrow> []
                                                | Some s \<Rightarrow> [json_quote (fst kv) @ '':'' @ s]) kvs))
           @ ''}'')"

subsection \<open>\<^verbatim>\<open>Array.prototype.sort\<close> with the default comparison\<close>

text \<open>
  The elements are compared as strings, by code units, and the sort is stable. With fewer
  than two elements nothing is compared and nothing is converted; otherwise every element
  is converted, and a conversion that throws ends the sort.
\<close>

definition js_sort :: "SettingsValidator \<Rightarrow> jsval list \<Rightarrow> exn + jsval list" where
  "js_sort this xs =
     (if length xs \<le> 1 then Inr xs
      else case sequence (map (to_str this) xs) of
             Inl e \<Rightarrow> Inl e
           | Inr keys \<Rightarrow> Inr (map snd (sort_key fst (zip keys xs))))"

subsection \<open>Values read from the current settings\<close>

text \<open>
  \<^verbatim>\<open>currentSettings[k]\<close> is read with whatever key the proposed tree has, once that key
  is found \<^verbatim>\<open>in\<close> the table, so the read can reach the prototype chain. What it can
  find there is a built-in function, \<^verbatim>\<open>Object.prototype\<close>, or the prototype object of
  an array or of a primitive.
\<close>

datatype curval =
    Data jsval
  | HostFunction
  | ObjectPrototypeValue
  | BuiltinPrototype

text \<open>The function-valued members of \<^verbatim>\<open>Object.prototype\<close>.\<close>

datatype builtin =
    B_constructor
  | B_defineGetter
  | B_defineSetter
  | B_hasOwnProperty
  | B_lookupGetter
  | B_lookupSetter
  | B_isPrototypeOf
  | B_propertyIsEnumerable
  | B_toString
  | B_valueOf
  | B_toLocaleString

definition builtin_named :: "string \<Rightarrow> builtin option" where
  "builtin_named k = map_of
     [(''constructor'', B_constructor),
      (''__defineGetter__'', B_defineGetter),
      (''__defineSetter__'', B_defineSetter),
      (''hasOwnProperty'', B_hasOwnProperty),
      (''__lookupGetter__'', B_lookupGetter),
      (''__lookupSetter__'', B_lookupSetter),
      (''isPrototypeOf'', B_isPrototypeOf),
      (''propertyIsEnumerable'', B_propertyIsEnumerable),
      (''toString'', B_toString),
      (''valueOf'', B_valueOf),
      (''toLocaleString'', B_toLocaleString)] k"

definition cannot_read :: "string \<Rightarrow> string \<Rightarrow> exn" where
  "cannot_read what k =
     TypeError (''Cannot read properties of '' @ what @ '' (reading '' @ sq @ k @ sq @ '')'')"

text \<open>
  What a receiver inherits under the key \<open>k\<close>, \<open>up\<close> being its prototype. The keys the
  walk reads with are names of the two tables and of the members of
  \<^verbatim>\<open>Object.prototype\<close>; none of the table names is a member of a built-in prototype, so
  for every other key the answer given here is \<^verbatim>\<open>undefined\<close>.
\<close>

definition inherited :: "curval \<Rightarrow> string \<Rightarrow> curval" where
  "inherited up k =
     (if k = ''__proto__'' then up
      else if builtin_named k \<noteq> None then HostFunction
      else Data Undefined)"

fun cur_get :: "curval \<Rightarrow> string \<Rightarrow> exn + curval" where
  "cur_get (Data Undefined) k = Inl (cannot_read ''undefined'' k)"
| "cur_get (Data Null) k = Inl (cannot_read ''null'' k)"
| "cur_get (Data (Obj kvs)) k =
     Inr (case map_of kvs k of Some v \<Rightarrow> Data v | None \<Rightarrow> inherited ObjectPrototypeValue k)"
| "cur_get (Data v) k =
     Inr (case map_of (for_in v) k of
            Some x \<Rightarrow> Data x
          | None \<Rightarrow>
              if k = ''length'' \<and> (typeof v = ''string'' \<or> typeof v = ''object'')
              then Data (Num (Finite (of_nat (length (for_in v)))))
              else inherited BuiltinPrototype k)"
| "cur_get ObjectPrototypeValue k = Inr (inherited (Data Null) k)"
| "cur_get BuiltinPrototype k = Inr (inherited ObjectPrototypeValue k)"
| "cur_get HostFunction k = Inr (inherited BuiltinPrototype k)"

text \<open>
  \<^verbatim>\<open>a === b\<close> for a value of the current tree and a value of the proposed tree. The two
  trees share no object, so two objects or arrays are never the same one.
\<close>

fun strict_eq :: "jsval \<Rightarrow> jsval \<Rightarrow> bool" where
  "strict_eq Undefined Undefined = True"
| "strict_eq Null Null = True"
| "strict_eq (Bool a) (Bool b) = (a = b)"
| "strict_eq (Num a) (Num b) = num_eq a b"
| "strict_eq (Str a) (Str b) = (a = b)"
| "strict_eq _ _ = False"

text \<open>\<^verbatim>\<open>currentValue !== desiredValue\<close>\<close>

fun differs :: "curval \<Rightarrow> jsval \<Rightarrow> bool" where
  "differs (Data v) d = (\<not> strict_eq v d)"
| "differs _ d = True"


section \<open>The leaf validators\<close>

text \<open>
  A validator receives the error list and answers the changed flag together with the
  list as it has left it; \<open>Inl\<close> is an exception leaving the function.
\<close>

type_synonym result = "exn + (bool \<times> string list)"

definition invalidSettingMessage :: "SettingsValidator \<Rightarrow> string \<Rightarrow> jsval \<Rightarrow> exn + string" where
  "invalidSettingMessage this fqname desiredValue =
     (case to_str this desiredValue of
        Inl e \<Rightarrow> Inl e
      | Inr s \<Rightarrow> Inr (''Invalid value for '' @ fqname @ '': <'' @ s @ ''>''))"

definition invalidSetting :: "SettingsValidator \<Rightarrow> string \<Rightarrow> jsval \<Rightarrow> string list \<Rightarrow> result" where
  "invalidSetting this fqname desiredValue errors =
     (case invalidSettingMessage this fqname desiredValue of
        Inl e \<Rightarrow> Inl e
      | Inr m \<Rightarrow> Inr (False, errors @ [m]))"

definition checkBoolean ::
  "SettingsValidator \<Rightarrow> curval \<Rightarrow> jsval \<Rightarrow> string list \<Rightarrow> string \<Rightarrow> result" where
  "checkBoolean this currentValue desiredValue errors fqname =
     (if typeof desiredValue \<noteq> ''boolean''
      then invalidSetting this fqname desiredValue errors
      else Inr (differs currentValue desiredValue, errors))"

definition checkNumber ::
  "SettingsValidator \<Rightarrow> jsnum \<Rightarrow> jsnum \<Rightarrow> curval \<Rightarrow> jsval \<Rightarrow> string list \<Rightarrow> string \<Rightarrow> result" where
  "checkNumber this minimum maximum currentValue desiredValue errors fqname =
     (case desiredValue of
        Num d \<Rightarrow>
          if num_lt d minimum \<or> num_lt maximum d
          then invalidSetting this fqname desiredValue errors
          else Inr (differs currentValue desiredValue, errors)
      | _ \<Rightarrow> invalidSetting this fqname desiredValue errors)"

definition checkString ::
  "SettingsValidator \<Rightarrow> curval \<Rightarrow> jsval \<Rightarrow> string list \<Rightarrow> string \<Rightarrow> result" where
  "checkString this currentValue desiredValue errors fqname =
     (if typeof desiredValue \<noteq> ''string''
      then invalidSetting this fqname desiredValue errors
      else Inr (differs currentValue desiredValue, errors))"

text \<open>\<^verbatim>\<open>Array.prototype.includes\<close> on an array of strings.\<close>

fun array_includes :: "string list \<Rightarrow> jsval \<Rightarrow> bool" where
  "array_includes xs (Str s) = (s \<in> set xs)"
| "array_includes xs _ = False"

definition checkContainerEngine ::
  "SettingsValidator \<Rightarrow> curval \<Rightarrow> jsval \<Rightarrow> string list \<Rightarrow> string \<Rightarrow> result" where
  "checkContainerEngine this currentValue desiredEngine errors fqname =
     (if \<not> array_includes [''containerd'', ''moby''] desiredEngine
      then (case to_str this desiredEngine of
              Inl e \<Rightarrow> Inl e
            | Inr s \<Rightarrow>
                Inr (False, errors @
                  [''Invalid value for '' @ fqname @ '': <'' @ s @ ''>; must be '' @
                   sq @ ''containerd'' @ sq @ '', '' @ sq @ ''docker'' @ sq @ '', or '' @
                   sq @ ''moby'' @ sq]))
      else Inr (differs currentValue desiredEngine, errors))"

definition checkKubernetesVersion ::
  "SettingsValidator \<Rightarrow> curval \<Rightarrow> jsval \<Rightarrow> string list \<Rightarrow> string \<Rightarrow> result" where
  "checkKubernetesVersion this currentValue desiredVersion errors fqname =
     (if \<not> array_includes (k8sVersions this) desiredVersion
      then (case to_str this desiredVersion of
              Inl e \<Rightarrow> Inl e
            | Inr s \<Rightarrow>
                Inr (False, errors @ [''Kubernetes version '' @ dq @ s @ dq @ '' not found.'']))
      else Inr (differs currentValue desiredVersion, errors))"

definition notSupported :: "string \<Rightarrow> string" where
  "notSupported fqname = ''Changing field '' @ fqname @ '' via the API isn'' @ sq @ ''t supported.''"

definition checkUnchanged ::
  "SettingsValidator \<Rightarrow> curval \<Rightarrow> jsval \<Rightarrow> string list \<Rightarrow> string \<Rightarrow> result" where
  "checkUnchanged this currentValue desiredValue errors fqname =
     Inr (False, if differs currentValue desiredValue then errors @ [notSupported fqname] else errors)"

text \<open>
  \<^verbatim>\<open>JSON.stringify(Object.entries(value).sort())\<close>. Each entry is the array
  \<^verbatim>\<open>[key, value]\<close>. A built-in function or prototype object has no own enumerable
  property.
\<close>

definition stableSerializeWSLIntegrations :: "SettingsValidator \<Rightarrow> curval \<Rightarrow> exn + string option" where
  "stableSerializeWSLIntegrations this val =
     (case (case val of Data v \<Rightarrow> object_entries v | _ \<Rightarrow> Inr []) of
        Inl e \<Rightarrow> Inl e
      | Inr es \<Rightarrow>
          (case js_sort this (map (\<lambda>kv. Arr [Str (fst kv), snd kv]) es) of
             Inl e \<Rightarrow> Inl e
           | Inr arr \<Rightarrow> Inr (json_stringify this (Arr arr))))"

fun exn_string :: "exn \<Rightarrow> string" where
  "exn_string (TypeError m) = ''TypeError: '' @ m"

definition checkWSLIntegrations ::
  "SettingsValidator \<Rightarrow> curval \<Rightarrow> jsval \<Rightarrow> string list \<Rightarrow> string \<Rightarrow> result" where
  "checkWSLIntegrations this currentValue desiredValue errors fqname =
     (if typeof desiredValue \<noteq> ''object''
      then (case to_str this desiredValue of
              Inl e \<Rightarrow> Inl e
            | Inr s \<Rightarrow>
                Inr (False, errors @
                  [''Proposed field '' @ fqname @ '' should be an object, got <'' @ s @ ''>.'']))
      else (case stableSerializeWSLIntegrations this currentValue of
              Inl err \<Rightarrow>
                Inr (False, errors @
                  [''JSON-parsing error checking field '' @ fqname @ '': '' @ exn_string err])
            | Inr a \<Rightarrow>
                (case stableSerializeWSLIntegrations this (Data desiredValue) of
                   Inl err \<Rightarrow>
                     Inr (False, errors @
                       [''JSON-parsing error checking field '' @ fqname @ '': '' @ exn_string err])
                 | Inr b \<Rightarrow>
                     Inr (False, if a \<noteq> b then errors @ [notSupported fqname] else errors))))"

definition invalidStrategy :: "SettingsValidator \<Rightarrow> string \<Rightarrow> jsval \<Rightarrow> string list \<Rightarrow> result" where
  "invalidStrategy this fqname desiredValue errors =
     (case to_str this desiredValue of
        Inl e \<Rightarrow> Inl e
      | Inr s \<Rightarrow> Inr (False, errors @ [fqname @ '': '' @ dq @ s @ dq @ '' is not a valid strategy'']))"

definition checkPathManagementStrategy ::
  "SettingsValidator \<Rightarrow> curval \<Rightarrow> jsval \<Rightarrow> string list \<Rightarrow> string \<Rightarrow> result" where
  "checkPathManagementStrategy this currentValue desiredValue errors fqname =
     (if \<not> array_includes (strategyValues this) desiredValue
      then invalidStrategy this fqname desiredValue errors
      else if strict_eq desiredValue (Str (strategyNotSet this))
      then invalidStrategy this fqname desiredValue errors
      else if differs currentValue desiredValue then Inr (True, errors)
      else Inr (False, errors))"


section \<open>The tables\<close>

text \<open>
  \<^verbatim>\<open>allowedSettings\<close> and \<^verbatim>\<open>synonymsTable\<close> are object literals: a member is a
  function of the class or a nested literal. The walks ask \<^verbatim>\<open>k in table\<close> and read
  \<^verbatim>\<open>table[k]\<close>, and both follow the prototype chain: a literal inherits the members of
  \<^verbatim>\<open>Object.prototype\<close>, its functions and the accessor \<^verbatim>\<open>__proto__\<close>, which answers
  \<^verbatim>\<open>Object.prototype\<close> itself for a literal and \<^verbatim>\<open>null\<close> for \<^verbatim>\<open>Object.prototype\<close>.
\<close>

datatype 'f table =
    Tree "(string \<times> 'f entry) list"
  | ObjectPrototype
  | NullValue
and 'f entry =
    Func 'f
  | Builtin builtin
  | Sub "'f table"

definition proto_entry :: "'f table \<Rightarrow> string \<Rightarrow> 'f entry option" where
  "proto_entry up k =
     (if k = ''__proto__'' then Some (Sub up) else map_option Builtin (builtin_named k))"

text \<open>
  \<^verbatim>\<open>k in table\<close> and \<^verbatim>\<open>table[k]\<close> in one: \<open>None\<close> when the key is not in the table.
  The operator \<^verbatim>\<open>in\<close> throws when its right operand is \<^verbatim>\<open>null\<close>.
\<close>

fun lookup_in :: "string \<Rightarrow> 'f table \<Rightarrow> exn + 'f entry option" where
  "lookup_in k (Tree kvs) =
     Inr (case map_of kvs k of Some e \<Rightarrow> Some e | None \<Rightarrow> proto_entry ObjectPrototype k)"
| "lookup_in k ObjectPrototype = Inr (proto_entry NullValue k)"
| "lookup_in k NullValue =
     Inl (TypeError (''Cannot use '' @ sq @ ''in'' @ sq @ '' operator to search for '' @
                     sq @ k @ sq @ '' in null''))"

fun depth :: "'f table \<Rightarrow> nat" where
  "depth (Tree kvs) = Suc (Suc (size (Tree kvs)))"
| "depth ObjectPrototype = 1"
| "depth NullValue = 0"

datatype validator =
    VUnchanged
  | VKubernetesVersion
  | VNumber jsnum jsnum
  | VContainerEngine
  | VBoolean
  | VWSLIntegrations
  | VString
  | VPathManagementStrategy

definition allowedSettings :: "validator table" where
  "allowedSettings = Tree
     [(''version'', Func VUnchanged),
      (''kubernetes'', Sub (Tree
        [(''version'', Func VKubernetesVersion),
         (''memoryInGB'', Func (VNumber (Finite 0) PosInfinity)),
         (''numberCPUs'', Func (VNumber (Finite 0) PosInfinity)),
         (''port'', Func (VNumber (Finite 1) (Finite 65535))),
         (''containerEngine'', Func VContainerEngine),
         (''checkForExistingKimBuilder'', Func VUnchanged),
         (''enabled'', Func VBoolean),
         (''WSLIntegrations'', Func VWSLIntegrations),
         (''options'', Sub (Tree [(''traefik'', Func VBoolean), (''flannel'', Func VBoolean)])),
         (''suppressSudo'', Func VBoolean),
         (''experimentalHostResolver'', Func VBoolean)])),
      (''portForwarding'', Sub (Tree [(''includeKubernetesServices'', Func VBoolean)])),
      (''images'', Sub (Tree
        [(''showAll'', Func VBoolean),
         (''namespace'', Func VString)])),
      (''telemetry'', Func VBoolean),
      (''updater'', Func VBoolean),
      (''debug'', Func VBoolean),
      (''pathManagementStrategy'', Func VPathManagementStrategy)]"

fun call_validator ::
  "SettingsValidator \<Rightarrow> validator \<Rightarrow> curval \<Rightarrow> jsval \<Rightarrow> string list \<Rightarrow> string \<Rightarrow> result" where
  "call_validator this VUnchanged = checkUnchanged this"
| "call_validator this VKubernetesVersion = checkKubernetesVersion this"
| "call_validator this (VNumber minimum maximum) = checkNumber this minimum maximum"
| "call_validator this VContainerEngine = checkContainerEngine this"
| "call_validator this VBoolean = checkBoolean this"
| "call_validator this VWSLIntegrations = checkWSLIntegrations this"
| "call_validator this VString = checkString this"
| "call_validator this VPathManagementStrategy = checkPathManagementStrategy this"

subsection \<open>Calling an inherited function\<close>

text \<open>
  A key such as \<^verbatim>\<open>toString\<close> is \<^verbatim>\<open>in\<close> every table, and what the table holds there is
  a function of \<^verbatim>\<open>Object.prototype\<close>; the walks call it like one of their own, with
  \<^verbatim>\<open>this\<close> the validator. The model answers whether the result is truthy.
  \<^item> \<^verbatim>\<open>constructor\<close> (that is \<^verbatim>\<open>Object\<close>), \<^verbatim>\<open>toString\<close>, \<^verbatim>\<open>toLocaleString\<close> and
    \<^verbatim>\<open>valueOf\<close> answer an object or a non-empty string.
  \<^item> \<^verbatim>\<open>hasOwnProperty\<close> and \<^verbatim>\<open>propertyIsEnumerable\<close> convert the first argument to a
    property key and look it up among the own properties of the validator, its three
    fields.
  \<^item> \<^verbatim>\<open>isPrototypeOf\<close> answers false: the validator is nobody's prototype.
  \<^item> \<^verbatim>\<open>__lookupGetter__\<close> and \<^verbatim>\<open>__lookupSetter__\<close> convert the first argument to a
    property key and answer an accessor function only for \<^verbatim>\<open>__proto__\<close>.
  \<^item> \<^verbatim>\<open>__defineGetter__\<close> and \<^verbatim>\<open>__defineSetter__\<close> throw unless the second argument is
    a function, and no value of the model is one.
  A built-in function or prototype object converts to a string that is none of these
  names.
\<close>

definition key_among :: "SettingsValidator \<Rightarrow> curval \<Rightarrow> string list \<Rightarrow> exn + bool" where
  "key_among this arg names =
     (case arg of
        Data v \<Rightarrow> (case to_str this v of Inl e \<Rightarrow> Inl e | Inr s \<Rightarrow> Inr (s \<in> set names))
      | _ \<Rightarrow> Inr False)"

fun call_builtin :: "SettingsValidator \<Rightarrow> builtin \<Rightarrow> curval \<Rightarrow> exn + bool" where
  "call_builtin this B_constructor arg = Inr True"
| "call_builtin this B_toString arg = Inr True"
| "call_builtin this B_toLocaleString arg = Inr True"
| "call_builtin this B_valueOf arg = Inr True"
| "call_builtin this B_hasOwnProperty arg =
     key_among this arg [''k8sVersions'', ''allowedSettings'', ''synonymsTable'']"
| "call_builtin this B_propertyIsEnumerable arg =
     key_among this arg [''k8sVersions'', ''allowedSettings'', ''synonymsTable'']"
| "call_builtin this B_isPrototypeOf arg = Inr False"
| "call_builtin this B_lookupGetter arg = key_among this arg [''__proto__'']"
| "call_builtin this B_lookupSetter arg = key_among this arg [''__proto__'']"
| "call_builtin this B_defineGetter arg =
     Inl (TypeError ''Object.prototype.__defineGetter__: Expecting function'')"
| "call_builtin this B_defineSetter arg =
     Inl (TypeError ''Object.prototype.__defineSetter__: Expecting function'')"


section \<open>The validation walk\<close>

text \<open>
  The two branches of the loop body of \<^verbatim>\<open>checkProposedSettings\<close> for a member of the
  table that is a function (its \<^verbatim>\<open>typeof\<close> is not \<^verbatim>\<open>object\<close>): the answer is what the
  branch contributes to \<^verbatim>\<open>changeNeeded\<close>, and the error list. The arguments of a call
  are evaluated first, so \<^verbatim>\<open>currentSettings[k]\<close> is read, and may throw, before the
  function runs.
\<close>

definition json_text :: "SettingsValidator \<Rightarrow> jsval \<Rightarrow> string" where
  "json_text this v = (case json_stringify this v of None \<Rightarrow> ''undefined'' | Some s \<Rightarrow> s)"

definition simpleValueMessage :: "SettingsValidator \<Rightarrow> string \<Rightarrow> jsval \<Rightarrow> string" where
  "simpleValueMessage this fqname v =
     ''Setting '' @ fqname @ '' should be a simple value, but got <'' @ json_text this v @ ''>.''"

fun checkLeaf ::
  "SettingsValidator \<Rightarrow> validator entry \<Rightarrow> curval \<Rightarrow> string \<Rightarrow> jsval \<Rightarrow> string list \<Rightarrow> string \<Rightarrow> result"
where
  "checkLeaf this (Func f) currentSettings k v errors fqname =
     (if typeof v = ''object''
      then (if f = VWSLIntegrations
            then (case cur_get currentSettings k of
                    Inl e \<Rightarrow> Inl e
                  | Inr c \<Rightarrow> checkWSLIntegrations this c v errors fqname)
            else Inr (False, errors @ [simpleValueMessage this fqname v]))
      else (case cur_get currentSettings k of
              Inl e \<Rightarrow> Inl e
            | Inr c \<Rightarrow> call_validator this f c v errors fqname))"
| "checkLeaf this (Builtin b) currentSettings k v errors fqname =
     (if typeof v = ''object''
      then Inr (False, errors @ [simpleValueMessage this fqname v])
      else (case cur_get currentSettings k of
              Inl e \<Rightarrow> Inl e
            | Inr c \<Rightarrow>
                (case call_builtin this b c of
                   Inl e \<Rightarrow> Inl e
                 | Inr truthy \<Rightarrow> Inr (truthy, errors))))"
| "checkLeaf this (Sub _) currentSettings k v errors fqname = Inr (False, errors)"

definition fq :: "string \<Rightarrow> string \<Rightarrow> string" where
  "fq prefix k = (if prefix \<noteq> [] then prefix @ ''.'' @ k else k)"

text \<open>
  \<^verbatim>\<open>checkProposedSettings\<close>: \<open>checkEntries\<close> is its \<^verbatim>\<open>for (const k in newSettings)\<close>
  loop over the properties still to visit, with \<^verbatim>\<open>changeNeeded\<close> and the error list as
  they stand.
\<close>

function (sequential) checkProposedSettings ::
  "SettingsValidator \<Rightarrow> validator table \<Rightarrow> curval \<Rightarrow> jsval \<Rightarrow> string list \<Rightarrow> string \<Rightarrow> result"
and checkEntries ::
  "SettingsValidator \<Rightarrow> validator table \<Rightarrow> curval \<Rightarrow> (string \<times> jsval) list \<Rightarrow> string \<Rightarrow>
   bool \<times> string list \<Rightarrow> result"
where
  "checkProposedSettings this allowed currentSettings newSettings errors prefix =
     checkEntries this allowed currentSettings (for_in newSettings) prefix (False, errors)"
| "checkEntries this allowed currentSettings [] prefix acc = Inr acc"
| "checkEntries this allowed currentSettings ((k, v) # rest) prefix (changeNeeded, errors) =
     (case lookup_in k allowed of
        Inl e \<Rightarrow> Inl e
      | Inr None \<Rightarrow> checkEntries this allowed currentSettings rest prefix (changeNeeded, errors)
      | Inr (Some (Sub inner)) \<Rightarrow>
          if typeof v = ''object''
          then (case cur_get currentSettings k of
                  Inl e \<Rightarrow> Inl e
                | Inr c \<Rightarrow>
                    (case checkProposedSettings this inner c v errors (fq prefix k) of
                       Inl e \<Rightarrow> Inl e
                     | Inr (changed, errors') \<Rightarrow>
                         checkEntries this allowed currentSettings rest prefix
                           (changed \<or> changeNeeded, errors')))
          else (case to_str this v of
                  Inl e \<Rightarrow> Inl e
                | Inr s \<Rightarrow>
                    checkEntries this allowed currentSettings rest prefix
                      (changeNeeded, errors @
                         [''Setting '' @ fq prefix k @ '' should wrap an inner object, but got <'' @
                          s @ ''>.'']))
      | Inr (Some leaf) \<Rightarrow>
          (case checkLeaf this leaf currentSettings k v errors (fq prefix k) of
             Inl e \<Rightarrow> Inl e
           | Inr (changed, errors') \<Rightarrow>
               checkEntries this allowed currentSettings rest prefix
                 (changed \<or> changeNeeded, errors')))"
  by pat_completeness auto
termination
proof -
  have sub: "depth t < depth (Tree kvs)" if "map_of kvs k = Some (Sub t)"
    for kvs :: "(string \<times> validator entry) list" and k t
  proof -
    from that have "(k, Sub t) \<in> set kvs" by (rule map_of_SomeD)
    then have "size t < size (Tree kvs)"
      by (induction kvs) auto
    then show ?thesis by (cases t) auto
  qed
  have look: "depth t' < depth t" if a: "lookup_in k t = Inr (Some (Sub t'))"
    for k and t t' :: "validator table"
  proof (cases t)
    case (Tree kvs)
    show ?thesis
    proof (cases "map_of kvs k")
      case None
      with a Tree have "t' = ObjectPrototype"
        by (auto simp: proto_entry_def split: if_splits)
      with Tree show ?thesis by simp
    next
      case (Some e)
      with a Tree have "map_of kvs k = Some (Sub t')" by simp
      then show ?thesis unfolding Tree by (rule sub)
    qed
  next
    case ObjectPrototype
    with a show ?thesis
      by (auto simp: proto_entry_def split: if_splits)
  next
    case NullValue
    with a show ?thesis by simp
  qed
  show ?thesis
    apply (relation "inv_image (less_than <*lex*> less_than)
     (\<lambda>x. case x of
             Inl (this, allowed, cur, new, errors, prefix) \<Rightarrow>
               (depth allowed, Suc (length (for_in new)))
           | Inr (this, allowed, cur, es, prefix, acc) \<Rightarrow> (depth allowed, length es))")
    apply (auto simp: look)
    done
qed

section \<open>Canonicalization\<close>

definition is_digit :: "char \<Rightarrow> bool" where
  "is_digit c = (c \<in> set ''0123456789'')"

text \<open>\<^verbatim>\<open>\d+\<close> at the head of a string: the digits, and what follows them.\<close>

definition digits1 :: "string \<Rightarrow> (string \<times> string) option" where
  "digits1 s =
     (if takeWhile is_digit s = [] then None
      else Some (takeWhile is_digit s, dropWhile is_digit s))"

definition expect :: "string \<Rightarrow> string \<Rightarrow> string option" where
  "expect p s = (if take (length p) s = p then Some (drop (length p) s) else None)"

text \<open>
  The pattern \<^verbatim>\<open>/^(v?)(\d+\.\d+\.\d+)((?:\+k3s\d+)?)$/\<close>: the three groups of a match.
  Each run of digits is followed by something that is not a digit, so the greedy match
  is the only one; \<^verbatim>\<open>$\<close> is the end of the string.
\<close>

definition version_match :: "string \<Rightarrow> (string \<times> string \<times> string) option" where
  "version_match s =
     (let m1 = (if take 1 s = ''v'' then ''v'' else [])
      in case digits1 (drop (length m1) s) of
           None \<Rightarrow> None
         | Some (a, r1) \<Rightarrow>
      (case expect ''.'' r1 of
           None \<Rightarrow> None
         | Some r2 \<Rightarrow>
      (case digits1 r2 of
           None \<Rightarrow> None
         | Some (b, r3) \<Rightarrow>
      (case expect ''.'' r3 of
           None \<Rightarrow> None
         | Some r4 \<Rightarrow>
      (case digits1 r4 of
           None \<Rightarrow> None
         | Some (c, r5) \<Rightarrow>
             if r5 = [] then Some (m1, a @ ''.'' @ b @ ''.'' @ c, [])
             else (case expect ''+k3s'' r5 of
                     None \<Rightarrow> None
                   | Some r6 \<Rightarrow>
                       (case digits1 r6 of
                          None \<Rightarrow> None
                        | Some (d, r7) \<Rightarrow>
                            if r7 = [] then Some (m1, a @ ''.'' @ b @ ''.'' @ c, r5)
                            else None)))))))"

text \<open>
  A leaf canonicalizer is given the object and the key; it reads \<^verbatim>\<open>newSettings[index]\<close>
  and may assign to it. The model gives it the value read and takes back the value the
  property holds afterwards. \<^verbatim>\<open>exec\<close> converts its argument to a string first.
\<close>

definition canonicalizeKubernetesVersion :: "SettingsValidator \<Rightarrow> jsval \<Rightarrow> exn + jsval" where
  "canonicalizeKubernetesVersion this desiredValue =
     (case to_str this desiredValue of
        Inl e \<Rightarrow> Inl e
      | Inr s \<Rightarrow>
          (case version_match s of
             None \<Rightarrow> Inr desiredValue
           | Some (m1, m2, m3) \<Rightarrow>
               if m1 \<noteq> [] \<or> m3 \<noteq> [] then Inr (Str m2) else Inr desiredValue))"

definition canonicalizeContainerEngine :: "jsval \<Rightarrow> jsval" where
  "canonicalizeContainerEngine v = (if v = Str ''docker'' then Str ''moby'' else v)"

definition canonicalizeBool :: "jsval \<Rightarrow> jsval" where
  "canonicalizeBool desiredValue =
     (if desiredValue = Str ''true'' then Bool True
      else if desiredValue = Str ''false'' then Bool False
      else desiredValue)"

datatype canonicalizer = CKubernetesVersion | CContainerEngine | CBool

fun call_canonicalizer :: "SettingsValidator \<Rightarrow> canonicalizer \<Rightarrow> jsval \<Rightarrow> exn + jsval" where
  "call_canonicalizer this CKubernetesVersion v = canonicalizeKubernetesVersion this v"
| "call_canonicalizer this CContainerEngine v = Inr (canonicalizeContainerEngine v)"
| "call_canonicalizer this CBool v = Inr (canonicalizeBool v)"

definition synonymsTable :: "canonicalizer table" where
  "synonymsTable = Tree
     [(''kubernetes'', Sub (Tree
        [(''version'', Func CKubernetesVersion),
         (''containerEngine'', Func CContainerEngine),
         (''enabled'', Func CBool),
         (''options'', Sub (Tree [(''flannel'', Func CBool)]))]))]"

text \<open>
  The object after the loop: its properties with the values they hold now. The elements
  of an array are its properties. A string has no property to assign to, and no key of
  a string is in a table.
\<close>

fun rebuild :: "jsval \<Rightarrow> (string \<times> jsval) list \<Rightarrow> jsval" where
  "rebuild (Obj _) es = Obj es"
| "rebuild (Arr _) es = Arr (map snd es)"
| "rebuild v es = v"

text \<open>
  \<^verbatim>\<open>canonicalizeSettings\<close> changes \<^verbatim>\<open>newSettings\<close> in place; the model answers the tree
  as the call leaves it. \<open>canonicalizeEntries\<close> is the loop over the properties still to
  visit. An inherited function is called with the object as its first argument and
  the key, a string, as its second.
\<close>

function (sequential) canonicalizeSettings ::
  "SettingsValidator \<Rightarrow> canonicalizer table \<Rightarrow> jsval \<Rightarrow> exn + jsval"
and canonicalizeEntries ::
  "SettingsValidator \<Rightarrow> canonicalizer table \<Rightarrow> jsval \<Rightarrow> (string \<times> jsval) list \<Rightarrow>
   exn + (string \<times> jsval) list"
where
  "canonicalizeSettings this tbl newSettings =
     (case canonicalizeEntries this tbl newSettings (for_in newSettings) of
        Inl e \<Rightarrow> Inl e
      | Inr es \<Rightarrow> Inr (rebuild newSettings es))"
| "canonicalizeEntries this tbl newSettings [] = Inr []"
| "canonicalizeEntries this tbl newSettings ((k, v) # rest) =
     (case lookup_in k tbl of
        Inl e \<Rightarrow> Inl e
      | Inr None \<Rightarrow>
          (case canonicalizeEntries this tbl newSettings rest of
             Inl e \<Rightarrow> Inl e
           | Inr es \<Rightarrow> Inr ((k, v) # es))
      | Inr (Some (Sub inner)) \<Rightarrow>
          (case canonicalizeSettings this inner v of
             Inl e \<Rightarrow> Inl e
           | Inr v' \<Rightarrow>
               (case canonicalizeEntries this tbl newSettings rest of
                  Inl e \<Rightarrow> Inl e
                | Inr es \<Rightarrow> Inr ((k, v') # es)))
      | Inr (Some (Func f)) \<Rightarrow>
          (case call_canonicalizer this f v of
             Inl e \<Rightarrow> Inl e
           | Inr v' \<Rightarrow>
               (case canonicalizeEntries this tbl newSettings rest of
                  Inl e \<Rightarrow> Inl e
                | Inr es \<Rightarrow> Inr ((k, v') # es)))
      | Inr (Some (Builtin b)) \<Rightarrow>
          (case call_builtin this b (Data newSettings) of
             Inl e \<Rightarrow> Inl e
           | Inr _ \<Rightarrow>
               (case canonicalizeEntries this tbl newSettings rest of
                  Inl e \<Rightarrow> Inl e
                | Inr es \<Rightarrow> Inr ((k, v) # es))))"
  by pat_completeness auto
termination
proof -
  have sub: "depth t < depth (Tree kvs)" if "map_of kvs k = Some (Sub t)"
    for kvs :: "(string \<times> canonicalizer entry) list" and k t
  proof -
    from that have "(k, Sub t) \<in> set kvs" by (rule map_of_SomeD)
    then have "size t < size (Tree kvs)"
      by (induction kvs) auto
    then show ?thesis by (cases t) auto
  qed
  have look: "depth t' < depth t" if a: "lookup_in k t = Inr (Some (Sub t'))"
    for k and t t' :: "canonicalizer table"
  proof (cases t)
    case (Tree kvs)
    show ?thesis
    proof (cases "map_of kvs k")
      case None
      with a Tree have "t' = ObjectPrototype"
        by (auto simp: proto_entry_def split: if_splits)
      with Tree show ?thesis by simp
    next
      case (Some e)
      with a Tree have "map_of kvs k = Some (Sub t')" by simp
      then show ?thesis unfolding Tree by (rule sub)
    qed
  next
    case ObjectPrototype
    with a show ?thesis
      by (auto simp: proto_entry_def split: if_splits)
  next
    case NullValue
    with a show ?thesis by simp
  qed
  show ?thesis
    apply (relation "inv_image (less_than <*lex*> less_than)
     (\<lambda>x. case x of
             Inl (this, tbl, new) \<Rightarrow> (depth tbl, Suc (length (for_in new)))
           | Inr (this, tbl, new, es) \<Rightarrow> (depth tbl, length es))")
    apply (auto simp: look)
    done
qed

definition canonicalizeSynonyms :: "SettingsValidator \<Rightarrow> jsval \<Rightarrow> exn + jsval" where
  "canonicalizeSynonyms this newSettings = canonicalizeSettings this synonymsTable newSettings"

section \<open>The entry point\<close>

definition validateSettings ::
  "SettingsValidator \<Rightarrow> jsval \<Rightarrow> jsval \<Rightarrow> exn + (bool \<times> string list)" where
  "validateSettings this currentSettings newSettings =
     (case canonicalizeSynonyms this newSettings of
        Inl e \<Rightarrow> Inl e
      | Inr canonical \<Rightarrow>
          (case checkProposedSettings this allowedSettings (Data currentSettings) canonical [] [] of
             Inl e \<Rightarrow> Inl e
           | Inr (needToUpdate, errors) \<Rightarrow> Inr (needToUpdate \<and> errors = [], errors)))"


section \<open>Notions used to state and prove the properties\<close>

declare canonicalizeSettings.simps [simp del]
declare checkProposedSettings.simps [simp del]

text \<open>
  The keys of an array or of a string are decimal numerals. The names every object
  literal inherits are those of the members of \<^verbatim>\<open>Object.prototype\<close>.
\<close>

definition index_key :: "string \<Rightarrow> bool" where
  "index_key k = (k \<noteq> [] \<and> list_all is_digit k)"

definition inherited_name :: "string \<Rightarrow> bool" where
  "inherited_name k = (k = ''__proto__'' \<or> builtin_named k \<noteq> None)"


text \<open>
  A well-formed table of the class: every own member is a function of the class or a
  nested table, under a name that is neither an index nor inherited.
\<close>

function (sequential) table_ok :: "'f table \<Rightarrow> bool"
and entries_ok :: "(string \<times> 'f entry) list \<Rightarrow> bool" where
  "table_ok (Tree es) = entries_ok es"
| "table_ok _ = True"
| "entries_ok [] = True"
| "entries_ok ((k, Sub t) # es) =
     (\<not> index_key k \<and> \<not> inherited_name k \<and> (case t of Tree _ \<Rightarrow> table_ok t | _ \<Rightarrow> False) \<and> entries_ok es)"
| "entries_ok ((k, Func f) # es) = (\<not> index_key k \<and> \<not> inherited_name k \<and> entries_ok es)"
| "entries_ok ((k, Builtin b) # es) = False"
  by pat_completeness auto
termination
  by (relation "measure (\<lambda>x. case x of Inl t \<Rightarrow> size t
        | Inr es \<Rightarrow> size_list (size_prod (\<lambda>_. 0) size) es)") auto


text \<open>
  What one turn of the loop of \<^verbatim>\<open>canonicalizeSettings\<close> leaves in \<^verbatim>\<open>newSettings[k]\<close>.
\<close>

definition canon_value ::
  "SettingsValidator \<Rightarrow> canonicalizer table \<Rightarrow> jsval \<Rightarrow> string \<Rightarrow> jsval \<Rightarrow> exn + jsval" where
  "canon_value this tbl newSettings k v =
     (case lookup_in k tbl of
        Inl e \<Rightarrow> Inl e
      | Inr None \<Rightarrow> Inr v
      | Inr (Some (Sub inner)) \<Rightarrow> canonicalizeSettings this inner v
      | Inr (Some (Func f)) \<Rightarrow> call_canonicalizer this f v
      | Inr (Some (Builtin b)) \<Rightarrow>
          (case call_builtin this b (Data newSettings) of Inl e \<Rightarrow> Inl e | Inr _ \<Rightarrow> Inr v))"

text \<open>
  The four synonym positions are \<^verbatim>\<open>kubernetes.version\<close>, \<^verbatim>\<open>kubernetes.containerEngine\<close>,
  \<^verbatim>\<open>kubernetes.enabled\<close> and \<^verbatim>\<open>kubernetes.options.flannel\<close>. \<open>mask_synonyms\<close> blanks the
  values stored there and keeps everything else of a tree, the keys at those positions
  included: two trees with the same mask have the same keys and differ at most in the
  values at the four positions.
\<close>

definition mask_entries :: "(string \<Rightarrow> jsval \<Rightarrow> jsval) \<Rightarrow> jsval \<Rightarrow> jsval" where
  "mask_entries f v = (case v of Obj kvs \<Rightarrow> Obj (map (\<lambda>kv. (fst kv, f (fst kv) (snd kv))) kvs) | _ \<Rightarrow> v)"

definition mask_options :: "jsval \<Rightarrow> jsval" where
  "mask_options = mask_entries (\<lambda>k x. if k = ''flannel'' then Undefined else x)"

definition mask_kubernetes :: "jsval \<Rightarrow> jsval" where
  "mask_kubernetes = mask_entries (\<lambda>k x.
     if k = ''version'' \<or> k = ''containerEngine'' \<or> k = ''enabled'' then Undefined
     else if k = ''options'' then mask_options x
     else x)"

definition mask_synonyms :: "jsval \<Rightarrow> jsval" where
  "mask_synonyms = mask_entries (\<lambda>k x. if k = ''kubernetes'' then mask_kubernetes x else x)"

text \<open>
  A proposed tree none of whose objects, at any depth, has a key named like a member of
  \<^verbatim>\<open>Object.prototype\<close>.
\<close>

fun plain :: "jsval \<Rightarrow> bool" where
  "plain (Obj kvs) = (\<forall>kv \<in> set kvs. \<not> inherited_name (fst kv) \<and> plain (snd kv))"
| "plain (Arr xs) = (\<forall>x \<in> set xs. plain x)"
| "plain _ = True"


text \<open>
  The current settings have their sections: something other than \<^verbatim>\<open>null\<close> and
  \<^verbatim>\<open>undefined\<close> at \<^verbatim>\<open>kubernetes\<close>, \<^verbatim>\<open>kubernetes.options\<close>, \<^verbatim>\<open>portForwarding\<close> and
  \<^verbatim>\<open>images\<close>, the places where the schema has a nested table.
\<close>

definition member :: "jsval \<Rightarrow> string \<Rightarrow> jsval" where
  "member v k =
     (case v of
        Obj kvs \<Rightarrow> (case map_of kvs k of Some x \<Rightarrow> x | None \<Rightarrow> Undefined)
      | _ \<Rightarrow> Undefined)"

definition present :: "jsval \<Rightarrow> bool" where
  "present v = (v \<noteq> Undefined \<and> v \<noteq> Null)"

definition current_shaped :: "jsval \<Rightarrow> bool" where
  "current_shaped cur =
     (present cur \<and>
      present (member cur ''kubernetes'') \<and>
      present (member (member cur ''kubernetes'') ''options'') \<and>
      present (member cur ''portForwarding'') \<and>
      present (member cur ''images''))"


text \<open>The same for any table: the value has a section wherever the table has a nested one.\<close>

function (sequential) fits :: "'f table \<Rightarrow> curval \<Rightarrow> bool"
and fits_entries :: "(string \<times> 'f entry) list \<Rightarrow> curval \<Rightarrow> bool" where
  "fits (Tree es) c = (c \<noteq> Data Undefined \<and> c \<noteq> Data Null \<and> fits_entries es c)"
| "fits _ c = False"
| "fits_entries [] c = True"
| "fits_entries ((k, Sub t) # es) c =
     ((case cur_get c k of Inr c' \<Rightarrow> fits t c' | Inl _ \<Rightarrow> False) \<and> fits_entries es c)"
| "fits_entries (_ # es) c = fits_entries es c"
  by pat_completeness auto
termination
  by (relation "measure (\<lambda>x. case x of Inl (t, c) \<Rightarrow> size t
        | Inr (es, c) \<Rightarrow> size_list (size_prod (\<lambda>_. 0) size) es)") auto







definition accumulate :: "bool \<Rightarrow> string list \<Rightarrow> result \<Rightarrow> result" where
  "accumulate changeNeeded errors r =
     (case r of Inl e \<Rightarrow> Inl e | Inr (changed, new) \<Rightarrow> Inr (changed \<or> changeNeeded, errors @ new))"


section \<open>Sample inputs\<close>

text \<open>
  A number conversion for the examples: exact on the integers they use.
\<close>

definition int_string :: "rat \<Rightarrow> string" where
  "int_string r = (if r < 0 then ''-'' else []) @ dec (nat \<bar>\<lfloor>r\<rfloor>\<bar>)"

definition sample_validator :: SettingsValidator where
  "sample_validator =
     \<lparr>k8sVersions = [''1.2.3''],
      strategyValues = [''notset'', ''manual'', ''rcfiles''],
      strategyNotSet = ''notset'',
      numberToString = int_string\<rparr>"

definition sample_current :: jsval where
  "sample_current = Obj
     [(''version'', Num (Finite 4)),
      (''kubernetes'', Obj
        [(''version'', Str ''1.2.3''),
         (''memoryInGB'', Num (Finite 2)),
         (''numberCPUs'', Num (Finite 2)),
         (''port'', Num (Finite 6443)),
         (''containerEngine'', Str ''moby''),
         (''checkForExistingKimBuilder'', Bool False),
         (''enabled'', Bool False),
         (''WSLIntegrations'', Obj []),
         (''options'', Obj [(''traefik'', Bool True), (''flannel'', Bool True)]),
         (''suppressSudo'', Bool False),
         (''experimentalHostResolver'', Bool False)]),
      (''portForwarding'', Obj [(''includeKubernetesServices'', Bool False)]),
      (''images'', Obj [(''showAll'', Bool True), (''namespace'', Str ''k8s.io'')]),
      (''telemetry'', Bool True),
      (''updater'', Bool True),
      (''debug'', Bool False),
      (''pathManagementStrategy'', Str ''rcfiles'')]"

text \<open>
  A proposal whose Kubernetes version is an object with a property named \<^verbatim>\<open>toString\<close>,
  and a proposal with two synonyms.
\<close>

definition bad_version :: jsval where
  "bad_version = Obj [(''kubernetes'', Obj [(''version'', Obj [(''toString'', Num (Finite 1))])])]"

definition versioned :: jsval where
  "versioned = Obj [(''kubernetes'', Obj [(''version'', Str ''v1.2.3+k3s1''), (''enabled'', Str ''true'')])]"







text \<open>A proposal with \<^verbatim>\<open>null\<close> where the schema has a section.\<close>

definition null_section :: jsval where
  "null_section = Obj [(''kubernetes'', Null)]"

section \<open>Properties\<close>

subsection \<open>Supporting lemmas\<close>

lemma dec_index: "index_key (dec n)"
proof (induction n rule: dec.induct)
  case (1 n)
  have d: "is_digit (''0123456789'' ! m)" if "m < 10" for m
    unfolding is_digit_def by (rule nth_mem) (use that in simp)
  show ?case
  proof (cases "n < 10")
    case True
    then show ?thesis using d [of n] by (subst dec.simps) (simp add: index_key_def)
  next
    case False
    with 1 have "index_key (dec (n div 10))" by simp
    moreover have "is_digit (''0123456789'' ! (n mod 10))" by (rule d) simp
    ultimately show ?thesis using False by (subst dec.simps) (simp add: index_key_def)
  qed
qed

lemma index_entries_keys: "(k, v) \<in> set (index_entries xs) \<Longrightarrow> index_key k"
  by (auto simp: index_entries_def dec_index dest!: set_zip_leftD)

lemma inherited_names:
  "inherited_name k \<longleftrightarrow> k \<in> set [''constructor'', ''__defineGetter__'', ''__defineSetter__'',
     ''hasOwnProperty'', ''__lookupGetter__'', ''__lookupSetter__'', ''isPrototypeOf'',
     ''propertyIsEnumerable'', ''toString'', ''valueOf'', ''toLocaleString'', ''__proto__'']"
  unfolding inherited_name_def builtin_named_def map_of_eq_None_iff by auto

lemma index_not_inherited: "index_key k \<Longrightarrow> \<not> inherited_name k"
proof
  assume a: "index_key k" and "inherited_name k"
  then have "hd k \<in> set ''c_hiptv''" unfolding inherited_names by auto
  then have "\<not> is_digit (hd k)" by (auto simp: is_digit_def)
  with a show False by (cases k) (auto simp: index_key_def)
qed

lemma entries_ok_map_of: "entries_ok es \<Longrightarrow> index_key k \<Longrightarrow> map_of es k = None"
proof (induction es)
  case Nil
  then show ?case by simp
next
  case (Cons a es)
  obtain k' e where a: "a = (k', e)" by (cases a)
  with Cons show ?case by (cases e) auto
qed

lemma lookup_index: "table_ok tbl \<Longrightarrow> index_key k \<Longrightarrow> lookup_in k tbl = Inr r \<Longrightarrow> r = None"
  using index_not_inherited [of k]
  by (cases tbl) (auto simp: entries_ok_map_of proto_entry_def inherited_name_def)

lemma canon_cons:
  "canonicalizeEntries this tbl ns ((k, v) # rest) =
     (case canon_value this tbl ns k v of
        Inl e \<Rightarrow> Inl e
      | Inr v' \<Rightarrow>
          (case canonicalizeEntries this tbl ns rest of
             Inl e \<Rightarrow> Inl e
           | Inr es \<Rightarrow> Inr ((k, v') # es)))"
  by (simp add: canon_value_def split: sum.splits option.splits entry.splits)

lemma canon_cons_Inr:
  "canonicalizeEntries this tbl ns ((k, v) # rest) = Inr es' \<longleftrightarrow>
     (\<exists>v' es. canon_value this tbl ns k v = Inr v' \<and>
              canonicalizeEntries this tbl ns rest = Inr es \<and> es' = (k, v') # es)"
  unfolding canon_cons by (auto split: sum.splits)

lemma canon_keys:
  "canonicalizeEntries this tbl ns es = Inr es' \<Longrightarrow> map fst es' = map fst es"
proof (induction es arbitrary: es')
  case Nil
  then show ?case by simp
next
  case (Cons a es)
  obtain k v where a: "a = (k, v)" by (cases a)
  from Cons.prems obtain v' es0 where
    "canonicalizeEntries this tbl ns es = Inr es0" and "es' = (k, v') # es0"
    unfolding a canon_cons_Inr by blast
  with Cons.IH a show ?case by simp
qed

lemma canon_index_entries:
  "table_ok tbl \<Longrightarrow> \<forall>(k, v) \<in> set es. index_key k \<Longrightarrow>
   canonicalizeEntries this tbl ns es = Inr es' \<Longrightarrow> es' = es"
proof (induction es arbitrary: es')
  case Nil
  then show ?case by simp
next
  case (Cons a es)
  obtain k v where a: "a = (k, v)" by (cases a)
  from Cons.prems a have ik: "index_key k" by simp
  from Cons.prems(3) obtain v' es0 where
    v': "canon_value this tbl ns k v = Inr v'" and
    es0: "canonicalizeEntries this tbl ns es = Inr es0" and e: "es' = (k, v') # es0"
    unfolding a canon_cons_Inr by blast
  from v' obtain r where r: "lookup_in k tbl = Inr r"
    by (auto simp: canon_value_def split: sum.splits)
  with Cons.prems(1) ik have "r = None" by (rule_tac lookup_index)
  with r v' have "v' = v" by (simp add: canon_value_def)
  moreover from Cons.IH [OF Cons.prems(1) _ es0] Cons.prems(2) have "es0 = es" by simp
  ultimately show ?case using e a by simp
qed

lemma for_in_index:
  "\<forall>kvs. ns \<noteq> Obj kvs \<Longrightarrow> \<forall>(k, v) \<in> set (for_in ns). index_key k"
  by (cases ns) (auto dest: index_entries_keys)

lemma rebuild_same: "rebuild ns (for_in ns) = ns"
  by (cases ns) (auto simp: index_entries_def)

lemma canon_nonobj:
  assumes "table_ok tbl" and "\<forall>kvs. ns \<noteq> Obj kvs" and "canonicalizeSettings this tbl ns = Inr ns'"
  shows "ns' = ns"
proof -
  from assms(3) obtain es' where es': "canonicalizeEntries this tbl ns (for_in ns) = Inr es'"
    and ns': "ns' = rebuild ns es'"
    by (auto simp: canonicalizeSettings.simps split: sum.splits)
  from canon_index_entries [OF assms(1) for_in_index [OF assms(2)] es'] have "es' = for_in ns" .
  with ns' show ?thesis by (simp add: rebuild_same)
qed

lemma table_ok_sub:
  "table_ok tbl \<Longrightarrow> lookup_in k tbl = Inr (Some (Sub t)) \<Longrightarrow> table_ok t"
proof (cases tbl)
  case (Tree es)
  assume ok: "table_ok tbl" and l: "lookup_in k tbl = Inr (Some (Sub t))"
  have own: "entries_ok es \<Longrightarrow> map_of es k = Some (Sub t) \<Longrightarrow> table_ok t" for es :: "(string \<times> 'a entry) list"
  proof (induction es)
    case Nil
    then show ?case by simp
  next
    case (Cons a es)
    obtain k' e where a: "a = (k', e)" by (cases a)
    with Cons show ?case by (cases e) (auto split: if_splits table.splits)
  qed
  show ?thesis
  proof (cases "map_of es k")
    case None
    with l Tree have "t = ObjectPrototype" by (auto simp: proto_entry_def split: if_splits)
    then show ?thesis by simp
  next
    case (Some e)
    with l Tree ok own show ?thesis by simp
  qed
next
  case ObjectPrototype
  assume "lookup_in k tbl = Inr (Some (Sub t))"
  with ObjectPrototype have "t = NullValue" by (auto simp: proto_entry_def split: if_splits)
  then show ?thesis by simp
next
  case NullValue
  assume "lookup_in k tbl = Inr (Some (Sub t))"
  with NullValue show ?thesis by simp
qed

lemma digits1_Some:
  "digits1 s = Some (a, r) \<Longrightarrow> a \<noteq> [] \<and> list_all is_digit a \<and> s = a @ r"
  by (auto simp: digits1_def list_all_iff split: if_splits dest: set_takeWhileD)

lemma digits1_run:
  assumes "a \<noteq> []" and "list_all is_digit a" and "r = [] \<or> \<not> is_digit (hd r)"
  shows "digits1 (a @ r) = Some (a, r)"
proof -
  from assms(2) have all: "\<forall>x \<in> set a. is_digit x" by (simp add: list_all_iff)
  from assms(3) have t: "takeWhile is_digit r = []" and d: "dropWhile is_digit r = r"
    by (cases r; auto)+
  from all t have "takeWhile is_digit (a @ r) = a" by (simp add: takeWhile_append2)
  moreover from all d have "dropWhile is_digit (a @ r) = r" by (simp add: dropWhile_append2)
  ultimately show ?thesis using assms(1) by (simp add: digits1_def)
qed

lemma version_match_fixed:
  assumes "version_match s = Some (m1, m2, m3)"
  shows "version_match m2 = Some ([], m2, [])"
proof -
  from assms obtain a b c r1 r3 r5 where
    a: "a \<noteq> []" "list_all is_digit a" and
    b: "b \<noteq> []" "list_all is_digit b" and
    c: "c \<noteq> []" "list_all is_digit c" and
    m2: "m2 = a @ ''.'' @ b @ ''.'' @ c"
    by (auto simp: version_match_def Let_def split: option.splits if_splits dest!: digits1_Some)
  have nd: "\<not> is_digit CHR ''.''" by (simp add: is_digit_def)
  have v: "take 1 m2 \<noteq> ''v''"
  proof -
    from a have "is_digit (hd a)" by (cases a) auto
    then have "hd a \<noteq> CHR ''v''" by (auto simp: is_digit_def)
    with a(1) show ?thesis unfolding m2 by (cases a) auto
  qed
  have 1: "digits1 m2 = Some (a, ''.'' @ b @ ''.'' @ c)"
    unfolding m2 using a nd by (intro digits1_run) auto
  have 2: "digits1 (b @ ''.'' @ c) = Some (b, ''.'' @ c)"
    using b nd by (intro digits1_run) auto
  have 3: "digits1 c = Some (c, [])"
    using digits1_run [OF c, of "[]"] by simp
  from v 1 2 3 show ?thesis
    by (simp add: version_match_def expect_def m2)
qed

lemma canonicalizeKubernetesVersion_fixed:
  assumes "canonicalizeKubernetesVersion this v = Inr v'"
  shows "canonicalizeKubernetesVersion this v' = Inr v'"
proof -
  from assms obtain s where s: "to_str this v = Inr s"
    by (auto simp: canonicalizeKubernetesVersion_def split: sum.splits)
  show ?thesis
  proof (cases "version_match s")
    case None
    with assms s have "v' = v" by (simp add: canonicalizeKubernetesVersion_def)
    with assms show ?thesis by simp
  next
    case (Some m)
    obtain m1 m2 m3 where m: "m = (m1, m2, m3)" by (cases m)
    show ?thesis
    proof (cases "m1 \<noteq> [] \<or> m3 \<noteq> []")
      case True
      with assms s Some m have "v' = Str m2" by (simp add: canonicalizeKubernetesVersion_def)
      moreover from Some m have "version_match m2 = Some ([], m2, [])"
        by (auto dest: version_match_fixed)
      ultimately show ?thesis by (simp add: canonicalizeKubernetesVersion_def)
    next
      case False
      with assms s Some m have "v' = v" by (simp add: canonicalizeKubernetesVersion_def)
      with assms show ?thesis by simp
    qed
  qed
qed

lemma call_canonicalizer_fixed:
  "call_canonicalizer this f v = Inr v' \<Longrightarrow> call_canonicalizer this f v' = Inr v'"
  by (cases f)
     (auto simp: canonicalizeKubernetesVersion_fixed canonicalizeContainerEngine_def
        canonicalizeBool_def split: if_splits)

lemma call_builtin_same_keys:
  "map fst kvs' = map fst kvs \<Longrightarrow>
   call_builtin this b (Data (Obj kvs')) = call_builtin this b (Data (Obj kvs))"
  by (cases b) (simp_all add: key_among_def)

lemma canon_value_fixed:
  assumes ok: "table_ok tbl"
    and sub: "\<And>inner v'. lookup_in k tbl = Inr (Some (Sub inner)) \<Longrightarrow> table_ok inner \<Longrightarrow>
            canonicalizeSettings this inner v = Inr v' \<Longrightarrow> canonicalizeSettings this inner v' = Inr v'"
    and compat: "\<And>b r. call_builtin this b (Data ns) = Inr r \<Longrightarrow> \<exists>r'. call_builtin this b (Data ns2) = Inr r'"
    and v': "canon_value this tbl ns k v = Inr v'"
  shows "canon_value this tbl ns2 k v' = Inr v'"
proof -
  from v' obtain r where r: "lookup_in k tbl = Inr r"
    by (auto simp: canon_value_def split: sum.splits)
  show ?thesis
  proof (cases r)
    case None
    with r v' show ?thesis by (simp add: canon_value_def)
  next
    case (Some e)
    show ?thesis
    proof (cases e)
      case (Func f)
      with r Some v' show ?thesis by (simp add: canon_value_def call_canonicalizer_fixed)
    next
      case (Builtin b)
      with r Some v' obtain x where "call_builtin this b (Data ns) = Inr x" and "v' = v"
        by (auto simp: canon_value_def split: sum.splits)
      with compat obtain x' where "call_builtin this b (Data ns2) = Inr x'" by blast
      with r Some Builtin show ?thesis by (simp add: canon_value_def)
    next
      case (Sub inner)
      with r Some v' have "canonicalizeSettings this inner v = Inr v'"
        by (simp add: canon_value_def)
      moreover from r Some Sub ok have "table_ok inner" by (auto dest: table_ok_sub)
      ultimately have "canonicalizeSettings this inner v' = Inr v'"
        using sub r Some Sub by blast
      with r Some Sub show ?thesis by (simp add: canon_value_def)
    qed
  qed
qed


lemma depth_own: "map_of kvs k = Some (Sub t) \<Longrightarrow> depth t < depth (Tree kvs)"
proof -
  assume "map_of kvs k = Some (Sub t)"
  then have "(k, Sub t) \<in> set kvs" by (rule map_of_SomeD)
  then have "size t < size (Tree kvs)"
    by (induction kvs) auto
  then show ?thesis by (cases t) auto
qed

lemma depth_lookup:
  assumes "lookup_in k t = Inr (Some (Sub t'))"
  shows "depth t' < depth t"
proof (cases t)
  case (Tree kvs)
  show ?thesis
  proof (cases "map_of kvs k")
    case None
    with assms Tree have "t' = ObjectPrototype"
      by (auto simp: proto_entry_def split: if_splits)
    with Tree show ?thesis by simp
  next
    case (Some e)
    with assms Tree have "map_of kvs k = Some (Sub t')" by simp
    then show ?thesis unfolding Tree by (rule depth_own)
  qed
next
  case ObjectPrototype
  with assms show ?thesis
    by (auto simp: proto_entry_def split: if_splits)
next
  case NullValue
  with assms show ?thesis by simp
qed

lemma canon_entries_idem:
  assumes ok: "table_ok tbl"
    and IH: "\<And>inner v v'. depth inner < depth tbl \<Longrightarrow> table_ok inner \<Longrightarrow>
               canonicalizeSettings this inner v = Inr v' \<Longrightarrow>
               canonicalizeSettings this inner v' = Inr v'"
    and compat: "\<And>b r. call_builtin this b (Data ns) = Inr r \<Longrightarrow>
               \<exists>r'. call_builtin this b (Data ns2) = Inr r'"
    and run: "canonicalizeEntries this tbl ns es = Inr es'"
  shows "canonicalizeEntries this tbl ns2 es' = Inr es'"
  using run
proof (induction es arbitrary: es')
  case Nil
  then show ?case by simp
next
  case (Cons a es)
  obtain k v where a: "a = (k, v)" by (cases a)
  from Cons.prems obtain v' es0 where
    v': "canon_value this tbl ns k v = Inr v'" and
    es0: "canonicalizeEntries this tbl ns es = Inr es0" and e: "es' = (k, v') # es0"
    unfolding a canon_cons_Inr by blast
  have "canon_value this tbl ns2 k v' = Inr v'"
  proof (rule canon_value_fixed [OF ok _ _ v'])
    fix inner w
    assume l: "lookup_in k tbl = Inr (Some (Sub inner))" and "table_ok inner"
      and "canonicalizeSettings this inner v = Inr w"
    with IH [OF depth_lookup [OF l]] show "canonicalizeSettings this inner w = Inr w" by blast
  next
    fix b x
    assume "call_builtin this b (Data ns) = Inr x"
    then show "\<exists>r'. call_builtin this b (Data ns2) = Inr r'" by (rule compat)
  qed
  moreover from Cons.IH [OF es0] have "canonicalizeEntries this tbl ns2 es0 = Inr es0" .
  ultimately show ?case unfolding e canon_cons_Inr by blast
qed

lemma canon_idem:
  "table_ok tbl \<Longrightarrow> canonicalizeSettings this tbl ns = Inr ns' \<Longrightarrow>
   canonicalizeSettings this tbl ns' = Inr ns'"
proof (induction tbl arbitrary: ns ns' rule: measure_induct_rule [where f = depth])
  case (less tbl)
  note ok = less.prems(1) and run = less.prems(2)
  show ?case
  proof (cases "\<exists>kvs. ns = Obj kvs")
    case False
    with ok run have "ns' = ns" by (auto dest: canon_nonobj)
    with run show ?thesis by simp
  next
    case True
    then obtain kvs where ns: "ns = Obj kvs" ..
    from run ns obtain es' where es': "canonicalizeEntries this tbl ns kvs = Inr es'"
      and ns': "ns' = Obj es'"
      by (auto simp: canonicalizeSettings.simps split: sum.splits)
    from es' have keys: "map fst es' = map fst kvs" by (rule canon_keys)
    have "canonicalizeEntries this tbl ns' es' = Inr es'"
    proof (rule canon_entries_idem [OF ok _ _ es'])
      fix inner v v'
      assume "depth inner < depth tbl" "table_ok inner" "canonicalizeSettings this inner v = Inr v'"
      then show "canonicalizeSettings this inner v' = Inr v'" by (rule less.IH)
    next
      fix b r
      assume "call_builtin this b (Data ns) = Inr r"
      then show "\<exists>r'. call_builtin this b (Data ns') = Inr r'"
        unfolding ns ns' call_builtin_same_keys [OF keys] by blast
    qed
    with ns' show ?thesis by (simp add: canonicalizeSettings.simps)
  qed
qed

lemma synonymsTable_ok: "table_ok synonymsTable"
  by (simp add: synonymsTable_def index_key_def is_digit_def inherited_name_def builtin_named_def)

lemma canon_pointwise:
  "canonicalizeEntries this tbl ns es = Inr es' \<Longrightarrow>
   list_all2 (\<lambda>kv kv'. fst kv' = fst kv \<and> canon_value this tbl ns (fst kv) (snd kv) = Inr (snd kv')) es es'"
proof (induction es arbitrary: es')
  case Nil
  then show ?case by simp
next
  case (Cons a es)
  obtain k v where a: "a = (k, v)" by (cases a)
  from Cons.prems obtain v' es0 where
    "canon_value this tbl ns k v = Inr v'" and
    "canonicalizeEntries this tbl ns es = Inr es0" and "es' = (k, v') # es0"
    unfolding a canon_cons_Inr by blast
  with Cons.IH a show ?case by simp
qed

lemma mask_entries_canon:
  assumes ok: "table_ok tbl"
    and run: "canonicalizeSettings this tbl ns = Inr ns'"
    and pw: "\<And>k v v'. canon_value this tbl ns k v = Inr v' \<Longrightarrow> f k v' = f k v"
  shows "mask_entries f ns' = mask_entries f ns"
proof (cases "\<exists>kvs. ns = Obj kvs")
  case False
  with ok run have "ns' = ns" by (auto dest: canon_nonobj)
  then show ?thesis by simp
next
  case True
  then obtain kvs where ns: "ns = Obj kvs" ..
  from run ns obtain es' where es': "canonicalizeEntries this tbl ns kvs = Inr es'"
    and ns': "ns' = Obj es'"
    by (auto simp: canonicalizeSettings.simps split: sum.splits)
  from canon_pointwise [OF es']
  have "list_all2 (\<lambda>kv kv'. fst kv' = fst kv \<and> f (fst kv) (snd kv') = f (fst kv) (snd kv)) kvs es'"
    by (rule list_all2_mono) (use pw in auto)
  then have "map (\<lambda>kv. (fst kv, f (fst kv) (snd kv))) es' = map (\<lambda>kv. (fst kv, f (fst kv) (snd kv))) kvs"
    by (induction kvs es' rule: list_all2_induct) auto
  with ns ns' show ?thesis by (simp add: mask_entries_def)
qed

lemma canon_entries_unchanged:
  assumes "canonicalizeEntries this tbl ns es = Inr es'"
    and "\<And>k v v'. canon_value this tbl ns k v = Inr v' \<Longrightarrow> v' = v"
  shows "es' = es"
proof -
  from canon_pointwise [OF assms(1)]
  have "list_all2 (\<lambda>kv kv'. kv' = kv) es es'"
    by (rule list_all2_mono) (use assms(2) in \<open>auto simp: prod_eq_iff\<close>)
  then show ?thesis by (simp add: list_all2_eq [symmetric] list_all2_conv_all_nth list_eq_iff_nth_eq)
qed

lemma canon_unchanged:
  assumes "canonicalizeSettings this tbl ns = Inr ns'"
    and "\<And>k v v'. canon_value this tbl ns k v = Inr v' \<Longrightarrow> v' = v"
  shows "ns' = ns"
proof -
  from assms(1) obtain es' where es': "canonicalizeEntries this tbl ns (for_in ns) = Inr es'"
    and ns': "ns' = rebuild ns es'"
    by (auto simp: canonicalizeSettings.simps split: sum.splits)
  have "es' = for_in ns" by (rule canon_entries_unchanged [OF es']) (rule assms(2))
  with ns' show ?thesis by (simp add: rebuild_same)
qed

lemma canon_NullValue: "canonicalizeSettings this NullValue ns = Inr ns' \<Longrightarrow> ns' = ns"
  by (erule canon_unchanged) (simp add: canon_value_def)

lemma canon_ObjectPrototype: "canonicalizeSettings this ObjectPrototype ns = Inr ns' \<Longrightarrow> ns' = ns"
proof (erule canon_unchanged)
  fix k v v'
  assume "canon_value this ObjectPrototype ns k v = Inr v'"
  then show "v' = v"
    by (auto simp: canon_value_def proto_entry_def dest: canon_NullValue
        split: if_splits option.splits sum.splits)
qed

lemma canon_value_not_own:
  assumes "map_of es k = None" and "canon_value this (Tree es) ns k v = Inr v'"
  shows "v' = v"
  using assms
  by (auto simp: canon_value_def proto_entry_def dest: canon_ObjectPrototype
      split: if_splits option.splits sum.splits)

lemma names_ok:
  "\<not> index_key ''flannel''" "\<not> inherited_name ''flannel''"
  "\<not> index_key ''version''" "\<not> inherited_name ''version''"
  "\<not> index_key ''containerEngine''" "\<not> inherited_name ''containerEngine''"
  "\<not> index_key ''enabled''" "\<not> inherited_name ''enabled''"
  "\<not> index_key ''options''" "\<not> inherited_name ''options''"
  "\<not> index_key ''kubernetes''" "\<not> inherited_name ''kubernetes''"
  by (simp_all add: index_key_def is_digit_def inherited_name_def builtin_named_def)

lemma canon_options:
  assumes "canonicalizeSettings this (Tree [(''flannel'', Func CBool)]) ns = Inr ns'"
  shows "mask_options ns' = mask_options ns"
  unfolding mask_options_def
proof (rule mask_entries_canon [OF _ assms])
  show "table_ok (Tree [(''flannel'', Func CBool)])" by (simp add: names_ok)
next
  fix k v v'
  assume a: "canon_value this (Tree [(''flannel'', Func CBool)]) ns k v = Inr v'"
  show "(if k = ''flannel'' then Undefined else v') = (if k = ''flannel'' then Undefined else v)"
  proof (cases "k = ''flannel''")
    case True
    then show ?thesis by simp
  next
    case False
    then have "map_of [(''flannel'', Func CBool)] k = None" by simp
    from canon_value_not_own [OF this a] show ?thesis by simp
  qed
qed

lemma canon_kubernetes:
  assumes "canonicalizeSettings this (Tree
        [(''version'', Func CKubernetesVersion),
         (''containerEngine'', Func CContainerEngine),
         (''enabled'', Func CBool),
         (''options'', Sub (Tree [(''flannel'', Func CBool)]))]) ns = Inr ns'"
  shows "mask_kubernetes ns' = mask_kubernetes ns"
  unfolding mask_kubernetes_def
proof (rule mask_entries_canon [OF _ assms])
  show "table_ok (Tree
        [(''version'', Func CKubernetesVersion),
         (''containerEngine'', Func CContainerEngine),
         (''enabled'', Func CBool),
         (''options'', Sub (Tree [(''flannel'', Func CBool)]))])" by (simp add: names_ok)
next
  fix k v v'
  let ?f = "\<lambda>k x. if k = ''version'' \<or> k = ''containerEngine'' \<or> k = ''enabled'' then Undefined
     else if k = ''options'' then mask_options x else x"
  assume a: "canon_value this (Tree
        [(''version'', Func CKubernetesVersion),
         (''containerEngine'', Func CContainerEngine),
         (''enabled'', Func CBool),
         (''options'', Sub (Tree [(''flannel'', Func CBool)]))]) ns k v = Inr v'"
  show "?f k v' = ?f k v"
  proof (cases "k = ''version'' \<or> k = ''containerEngine'' \<or> k = ''enabled''")
    case True
    then show ?thesis by simp
  next
    case leaf: False
    show ?thesis
    proof (cases "k = ''options''")
      case True
      with a have "canonicalizeSettings this (Tree [(''flannel'', Func CBool)]) v = Inr v'"
        by (simp add: canon_value_def)
      then have "mask_options v' = mask_options v" by (rule canon_options)
      with True show ?thesis by simp
    next
      case False
      with leaf have "map_of
        [(''version'', Func CKubernetesVersion),
         (''containerEngine'', Func CContainerEngine),
         (''enabled'', Func CBool),
         (''options'', Sub (Tree [(''flannel'', Func CBool)]))] k = None" by simp
      from canon_value_not_own [OF this a] show ?thesis by simp
    qed
  qed
qed

lemma canon_frame:
  assumes "canonicalizeSynonyms this p = Inr p'"
  shows "mask_synonyms p' = mask_synonyms p"
  unfolding mask_synonyms_def
proof (rule mask_entries_canon [of synonymsTable this p])
  show "table_ok synonymsTable" by (rule synonymsTable_ok)
  from assms show "canonicalizeSettings this synonymsTable p = Inr p'"
    by (simp add: canonicalizeSynonyms_def)
next
  fix k v v'
  assume a: "canon_value this synonymsTable p k v = Inr v'"
  show "(if k = ''kubernetes'' then mask_kubernetes v' else v') =
        (if k = ''kubernetes'' then mask_kubernetes v else v)"
  proof (cases "k = ''kubernetes''")
    case True
    with a have "mask_kubernetes v' = mask_kubernetes v"
      by (auto simp: canon_value_def synonymsTable_def intro: canon_kubernetes)
    with True show ?thesis by simp
  next
    case False
    then have "map_of [(''kubernetes'', Sub (Tree
        [(''version'', Func CKubernetesVersion),
         (''containerEngine'', Func CContainerEngine),
         (''enabled'', Func CBool),
         (''options'', Sub (Tree [(''flannel'', Func CBool)]))]))] k = None" by simp
    from canon_value_not_own [OF this a [unfolded synonymsTable_def]] False show ?thesis by simp
  qed
qed

lemma sequence_total:
  "(\<And>x. x \<in> set xs \<Longrightarrow> \<exists>y. f x = Inr y) \<Longrightarrow> \<exists>ys. sequence (map f xs) = Inr ys"
proof (induction xs)
  case Nil
  then show ?case by simp
next
  case (Cons x xs)
  then obtain y ys where "f x = Inr y" "sequence (map f xs) = Inr ys"
    by (metis list.set_intros(1) list.set_intros(2))
  then show ?case by simp
qed

lemma to_str_plain: "plain v \<Longrightarrow> \<exists>s. to_str this v = Inr s"
proof (induction v)
  case (Arr xs)
  have "\<exists>ys. sequence (map (\<lambda>x. if x = Undefined \<or> x = Null then Inr [] else to_str this x) xs) = Inr ys"
  proof (rule sequence_total)
    fix x
    assume "x \<in> set xs"
    with Arr show "\<exists>y. (if x = Undefined \<or> x = Null then Inr [] else to_str this x) = Inr y"
      by auto
  qed
  then show ?case by auto
next
  case (Obj kvs)
  moreover have "inherited_name ''toString''" by (simp add: inherited_names)
  ultimately have "''toString'' \<notin> set (map fst kvs)"
    by force
  then show ?case by simp
qed simp_all

lemma call_canonicalizer_total:
  assumes "plain v"
  shows "\<exists>v'. call_canonicalizer this f v = Inr v' \<and> plain v'"
proof (cases f)
  case CKubernetesVersion
  from to_str_plain [OF assms] obtain s where "to_str this v = Inr s" ..
  with assms CKubernetesVersion show ?thesis
    by (auto simp: canonicalizeKubernetesVersion_def split: option.splits)
next
  case CContainerEngine
  with assms show ?thesis by (simp add: canonicalizeContainerEngine_def)
next
  case CBool
  with assms show ?thesis by (simp add: canonicalizeBool_def)
qed

lemma for_in_plain:
  assumes "plain ns" and "kv \<in> set (for_in ns)"
  shows "\<not> inherited_name (fst kv) \<and> plain (snd kv)"
proof -
  obtain k v where kv: "kv = (k, v)" by (cases kv)
  show ?thesis
  proof (cases ns)
    case (Obj kvs)
    with assms show ?thesis by auto
  next
    case (Arr xs)
    with assms kv have m: "(k, v) \<in> set (index_entries xs)" by simp
    then have "index_key k" by (rule index_entries_keys)
    moreover from m have "v \<in> set xs" by (auto simp: index_entries_def dest: set_zip_rightD)
    ultimately show ?thesis using assms(1) Arr kv by (auto dest: index_not_inherited)
  next
    case (Str s)
    with assms kv have m: "(k, v) \<in> set (index_entries (map (\<lambda>c. Str [c]) s))" by simp
    then have "index_key k" by (rule index_entries_keys)
    moreover from m have "v \<in> set (map (\<lambda>c. Str [c]) s)"
      by (auto simp: index_entries_def dest: set_zip_rightD)
    ultimately show ?thesis using kv by (auto dest: index_not_inherited)
  qed (use assms in auto)
qed

lemma rebuild_plain:
  assumes "plain ns" and "map fst es = map fst (for_in ns)" and "\<forall>kv \<in> set es. plain (snd kv)"
  shows "plain (rebuild ns es)"
proof (cases ns)
  case (Obj kvs)
  have "\<not> inherited_name (fst kv)" if "kv \<in> set es" for kv
  proof -
    from that have "fst kv \<in> set (map fst es)" by simp
    with assms(2) Obj have "fst kv \<in> fst ` set kvs" by simp
    with assms(1) Obj show ?thesis by auto
  qed
  with assms(3) Obj show ?thesis by simp
next
  case (Arr xs)
  with assms(3) show ?thesis by simp
qed (use assms in auto)

lemma own_entry:
  "entries_ok es \<Longrightarrow> map_of es k = Some e \<Longrightarrow>
   (\<exists>f. e = Func f) \<or> (\<exists>es'. e = Sub (Tree es') \<and> entries_ok es')"
proof (induction es)
  case Nil
  then show ?case by simp
next
  case (Cons a es)
  obtain k' e' where a: "a = (k', e')" by (cases a)
  with Cons show ?case by (cases e') (auto split: if_splits table.splits)
qed

lemma lookup_own:
  "\<not> inherited_name k \<Longrightarrow> lookup_in k (Tree es) = Inr (map_of es k)"
  by (auto simp: inherited_name_def proto_entry_def split: option.splits)

lemma canon_value_total:
  assumes ok: "entries_ok es0"
    and IH: "\<And>es1 v. depth (Tree es1) < depth (Tree es0) \<Longrightarrow> entries_ok es1 \<Longrightarrow> plain v \<Longrightarrow>
               \<exists>v'. canonicalizeSettings this (Tree es1) v = Inr v' \<and> plain v'"
    and k: "\<not> inherited_name k" and v: "plain v"
  shows "\<exists>v'. canon_value this (Tree es0) ns k v = Inr v' \<and> plain v'"
proof (cases "map_of es0 k")
  case None
  with k v show ?thesis by (simp add: canon_value_def lookup_own del: lookup_in.simps)
next
  case (Some e)
  from own_entry [OF ok Some] show ?thesis
  proof (elim disjE exE conjE)
    fix f
    assume "e = Func f"
    with Some k call_canonicalizer_total [OF v, of this f] show ?thesis
      by (simp add: canon_value_def lookup_own del: lookup_in.simps)
  next
    fix es1
    assume e: "e = Sub (Tree es1)" and ok1: "entries_ok es1"
    from Some e have "map_of es0 k = Some (Sub (Tree es1))" by simp
    then have "depth (Tree es1) < depth (Tree es0)" by (rule depth_own)
    from IH [OF this ok1 v] Some e k show ?thesis
      by (simp add: canon_value_def lookup_own del: lookup_in.simps)
  qed
qed

lemma canon_entries_total:
  assumes ok: "entries_ok es0"
    and IH: "\<And>es1 v. depth (Tree es1) < depth (Tree es0) \<Longrightarrow> entries_ok es1 \<Longrightarrow> plain v \<Longrightarrow>
               \<exists>v'. canonicalizeSettings this (Tree es1) v = Inr v' \<and> plain v'"
    and es: "\<forall>kv \<in> set es. \<not> inherited_name (fst kv) \<and> plain (snd kv)"
  shows "\<exists>es'. canonicalizeEntries this (Tree es0) ns es = Inr es' \<and> (\<forall>kv \<in> set es'. plain (snd kv))"
  using es
proof (induction es)
  case Nil
  then show ?case by simp
next
  case (Cons a es)
  obtain k v where a: "a = (k, v)" by (cases a)
  with Cons.prems have "\<not> inherited_name k" "plain v" by auto
  from canon_value_total [OF ok IH this] obtain v' where
    "canon_value this (Tree es0) ns k v = Inr v'" "plain v'" by blast
  moreover from Cons obtain es' where
    "canonicalizeEntries this (Tree es0) ns es = Inr es'" "\<forall>kv \<in> set es'. plain (snd kv)" by auto
  ultimately show ?case unfolding a canon_cons_Inr by auto
qed

lemma canon_total_aux:
  "tbl = Tree es0 \<Longrightarrow> entries_ok es0 \<Longrightarrow> plain ns \<Longrightarrow>
   \<exists>ns'. canonicalizeSettings this tbl ns = Inr ns' \<and> plain ns'"
proof (induction tbl arbitrary: es0 ns rule: measure_induct_rule [where f = depth])
  case (less tbl)
  note tbl = less.prems(1)
  have "\<exists>es'. canonicalizeEntries this (Tree es0) ns (for_in ns) = Inr es' \<and>
          (\<forall>kv \<in> set es'. plain (snd kv))"
  proof (rule canon_entries_total [OF less.prems(2)])
    fix es1 :: "(string \<times> canonicalizer entry) list" and v
    assume "depth (Tree es1) < depth (Tree es0)" "entries_ok es1" "plain v"
    with less.IH [of "Tree es1" es1 v] tbl
    show "\<exists>v'. canonicalizeSettings this (Tree es1) v = Inr v' \<and> plain v'"
      by simp
  next
    from less.prems(3) show "\<forall>kv \<in> set (for_in ns). \<not> inherited_name (fst kv) \<and> plain (snd kv)"
      by (blast dest: for_in_plain)
  qed
  then obtain es' where es': "canonicalizeEntries this (Tree es0) ns (for_in ns) = Inr es'"
    and p: "\<forall>kv \<in> set es'. plain (snd kv)" by blast
  from es' have "map fst es' = map fst (for_in ns)" by (rule canon_keys)
  with less.prems(3) p have "plain (rebuild ns es')" by (intro rebuild_plain)
  with es' tbl show ?case by (simp add: canonicalizeSettings.simps)
qed

lemma canonicalizeSynonyms_total:
  "plain p \<Longrightarrow> \<exists>p'. canonicalizeSynonyms this p = Inr p' \<and> plain p'"
  unfolding canonicalizeSynonyms_def synonymsTable_def
  by (rule canon_total_aux [OF refl]) (simp_all add: names_ok)

lemma to_str_primitive: "typeof v \<noteq> ''object'' \<Longrightarrow> \<exists>s. to_str this v = Inr s"
  by (cases v) auto

lemma checkWSLIntegrations_total:
  "\<exists>errors'. checkWSLIntegrations this c d errors fqname = Inr (False, errors')"
proof (cases "typeof d = ''object''")
  case True
  then show ?thesis
    by (simp add: checkWSLIntegrations_def split: sum.splits)
next
  case False
  then obtain s where "to_str this d = Inr s" using to_str_primitive by blast
  with False show ?thesis by (simp add: checkWSLIntegrations_def)
qed

lemma cur_get_total:
  "c \<noteq> Data Undefined \<Longrightarrow> c \<noteq> Data Null \<Longrightarrow> \<exists>c'. cur_get c k = Inr c'"
proof (cases c)
  case (Data v)
  assume "c \<noteq> Data Undefined" "c \<noteq> Data Null"
  with Data show ?thesis by (cases v) auto
qed auto

lemma call_validator_total:
  assumes "typeof v \<noteq> ''object''"
  shows "\<exists>r. call_validator this f c v errors fqname = Inr r"
proof -
  from to_str_primitive [OF assms] obtain s where s: "to_str this v = Inr s" ..
  show ?thesis
  proof (cases f)
    case VWSLIntegrations
    with checkWSLIntegrations_total [of this c v errors fqname] show ?thesis by auto
  next
    case (VNumber lo hi)
    from s have "\<exists>r. invalidSetting this fqname v errors = Inr r"
      by (auto simp: invalidSetting_def invalidSettingMessage_def)
    with VNumber show ?thesis
      by (cases v) (auto simp: checkNumber_def intro: exI [of _ False])
  qed (use s in \<open>auto simp: checkUnchanged_def checkKubernetesVersion_def checkContainerEngine_def
        checkBoolean_def checkString_def checkPathManagementStrategy_def invalidStrategy_def
        invalidSetting_def invalidSettingMessage_def\<close>)
qed

lemma checkLeaf_total:
  assumes "c \<noteq> Data Undefined" and "c \<noteq> Data Null"
  shows "\<exists>r. checkLeaf this (Func f) c k v errors fqname = Inr r"
proof -
  from cur_get_total [OF assms] obtain c' where c': "cur_get c k = Inr c'" ..
  show ?thesis
  proof (cases "typeof v = ''object''")
    case True
    with c' checkWSLIntegrations_total [of this c' v errors fqname] show ?thesis by auto
  next
    case False
    with c' call_validator_total [OF False, of this f c' errors fqname] show ?thesis by auto
  qed
qed

lemma fits_own:
  "fits_entries es c \<Longrightarrow> map_of es k = Some (Sub t) \<Longrightarrow> \<exists>c'. cur_get c k = Inr c' \<and> fits t c'"
proof (induction es)
  case Nil
  then show ?case by simp
next
  case (Cons a es)
  obtain k' e where a: "a = (k', e)" by (cases a)
  with Cons show ?case by (cases e) (auto split: if_splits sum.splits)
qed

lemma fits_Tree: "fits t c \<Longrightarrow> \<exists>es. t = Tree es"
  by (cases t) auto

lemma check_entries_total:
  assumes ok: "entries_ok es0" and f: "fits (Tree es0) cur"
    and IH: "\<And>es1 c v errors prefix. depth (Tree es1) < depth (Tree es0) \<Longrightarrow> entries_ok es1 \<Longrightarrow>
               fits (Tree es1) c \<Longrightarrow> plain v \<Longrightarrow>
               \<exists>r. checkProposedSettings this (Tree es1) c v errors prefix = Inr r"
    and es: "\<forall>kv \<in> set es. \<not> inherited_name (fst kv) \<and> plain (snd kv)"
  shows "\<exists>r. checkEntries this (Tree es0) cur es prefix acc = Inr r"
  using es
proof (induction es arbitrary: acc)
  case Nil
  show ?case by simp
next
  case (Cons a es)
  obtain k v where a: "a = (k, v)" by (cases a)
  obtain changeNeeded errors where acc: "acc = (changeNeeded, errors)" by (cases acc)
  from Cons.prems a have k: "\<not> inherited_name k" and v: "plain v" by auto
  from Cons have rest: "\<exists>r. checkEntries this (Tree es0) cur es prefix acc' = Inr r" for acc'
    by auto
  from f have nn: "cur \<noteq> Data Undefined" "cur \<noteq> Data Null" by auto
  note l = lookup_own [OF k, of es0]
  show ?case
  proof (cases "map_of es0 k")
    case None
    with rest [of "(changeNeeded, errors)"] show ?thesis
      unfolding a acc by (simp add: l del: lookup_in.simps)
  next
    case (Some e)
    from own_entry [OF ok Some] show ?thesis
    proof (elim disjE exE conjE)
      fix g
      assume e: "e = Func g"
      from checkLeaf_total [OF nn, of this g k v errors "fq prefix k"]
      obtain ch errs where "checkLeaf this (Func g) cur k v errors (fq prefix k) = Inr (ch, errs)"
        by auto
      with rest [of "(ch \<or> changeNeeded, errs)"] Some e show ?thesis
        unfolding a acc by (simp add: l del: lookup_in.simps checkLeaf.simps)
    next
      fix es1
      assume e: "e = Sub (Tree es1)" and ok1: "entries_ok es1"
      from Some e have m: "map_of es0 k = Some (Sub (Tree es1))" by simp
      then have d: "depth (Tree es1) < depth (Tree es0)" by (rule depth_own)
      show ?thesis
      proof (cases "typeof v = ''object''")
        case True
        from f m obtain c' where c': "cur_get cur k = Inr c'" and f': "fits (Tree es1) c'"
          by (auto dest: fits_own)
        from IH [OF d ok1 f' v, of errors "fq prefix k"] obtain ch errs where
          "checkProposedSettings this (Tree es1) c' v errors (fq prefix k) = Inr (ch, errs)"
          by auto
        with rest [of "(ch \<or> changeNeeded, errs)"] m c' True show ?thesis
          unfolding a acc by (simp add: l del: lookup_in.simps)
      next
        case False
        from to_str_primitive [OF False] obtain s where s: "to_str this v = Inr s" ..
        with rest m False show ?thesis
          unfolding a acc by (simp add: l del: lookup_in.simps)
      qed
    qed
  qed
qed

lemma check_total_aux:
  "tbl = Tree es0 \<Longrightarrow> entries_ok es0 \<Longrightarrow> fits tbl cur \<Longrightarrow> plain new \<Longrightarrow>
   \<exists>r. checkProposedSettings this tbl cur new errors prefix = Inr r"
proof (induction tbl arbitrary: es0 cur new errors prefix rule: measure_induct_rule [where f = depth])
  case (less tbl)
  note tbl = less.prems(1)
  have "\<exists>r. checkEntries this (Tree es0) cur (for_in new) prefix (False, errors) = Inr r"
  proof (rule check_entries_total [OF less.prems(2)])
    from less.prems(3) tbl show "fits (Tree es0) cur" by simp
  next
    fix es1 :: "(string \<times> validator entry) list" and c v errs pre
    assume "depth (Tree es1) < depth (Tree es0)" "entries_ok es1" "fits (Tree es1) c" "plain v"
    with less.IH [of "Tree es1" es1 c v errs pre] tbl
    show "\<exists>r. checkProposedSettings this (Tree es1) c v errs pre = Inr r"
      by simp
  next
    from less.prems(4) show "\<forall>kv \<in> set (for_in new). \<not> inherited_name (fst kv) \<and> plain (snd kv)"
      by (blast dest: for_in_plain)
  qed
  with tbl show ?case by (simp add: checkProposedSettings.simps)
qed

lemma allowedSettings_ok:
  "allowedSettings = Tree es \<Longrightarrow> entries_ok es"
  by (auto simp: allowedSettings_def index_key_def is_digit_def inherited_name_def builtin_named_def)

lemma member_present:
  "present (member v k) \<Longrightarrow> \<exists>kvs x. v = Obj kvs \<and> map_of kvs k = Some x \<and> x \<noteq> Undefined \<and> x \<noteq> Null"
  by (cases v) (auto simp: member_def present_def split: option.splits)

lemma current_fits:
  assumes "current_shaped cur"
  shows "fits allowedSettings (Data cur)"
proof -
  from assms obtain top k8s where cur: "cur = Obj top"
    and k8s: "map_of top ''kubernetes'' = Some k8s" "k8s \<noteq> Undefined" "k8s \<noteq> Null"
    by (auto simp: current_shaped_def dest!: member_present)
  from assms cur k8s(1) have "present (member k8s ''options'')"
    by (simp add: current_shaped_def member_def)
  then obtain kvs opts where k: "k8s = Obj kvs"
    and opts: "map_of kvs ''options'' = Some opts" "opts \<noteq> Undefined" "opts \<noteq> Null"
    by (auto dest!: member_present)
  from assms cur obtain pf where pf: "map_of top ''portForwarding'' = Some pf" "pf \<noteq> Undefined" "pf \<noteq> Null"
    by (auto simp: current_shaped_def dest!: member_present)
  from assms cur obtain im where im: "map_of top ''images'' = Some im" "im \<noteq> Undefined" "im \<noteq> Null"
    by (auto simp: current_shaped_def dest!: member_present)
  from cur k8s k opts pf im show ?thesis
    by (simp add: allowedSettings_def)
qed


subsection \<open>Where the walk returns\<close>

text \<open>
  A condition under which neither walk throws; it is sufficient, not necessary. The
  current settings have their sections and no object of the proposed tree has a key
  named like a member of \<^verbatim>\<open>Object.prototype\<close>.
\<close>

lemma validateSettings_returns:
  assumes "plain new" and "current_shaped cur"
  shows "\<exists>ok errors. validateSettings this cur new = Inr (ok, errors)"
proof -
  from canonicalizeSynonyms_total [OF assms(1)] obtain c where
    c: "canonicalizeSynonyms this new = Inr c" and pc: "plain c" by blast
  obtain es where es: "allowedSettings = Tree es" by (simp add: allowedSettings_def)
  from check_total_aux [OF es allowedSettings_ok [OF es] current_fits [OF assms(2)] pc]
  obtain r where "checkProposedSettings this allowedSettings (Data cur) c [] [] = Inr r" by blast
  with c show ?thesis by (cases r) (simp add: validateSettings_def)
qed


subsection \<open>No-op updates\<close>







subsection \<open>The flag and the error list accumulate\<close>


lemma accumulate_Inl: "accumulate a e (Inl x) = Inl x"
  by (simp add: accumulate_def)







subsection \<open>The entry point\<close>







text \<open>
  Claim C9. With an empty proposed tree, whatever the current settings, the answer is
  \<open>ok = false\<close> and no error.
\<close>

theorem validateSettings_empty:
  "validateSettings this cur (Obj []) = Inr (False, [])"
  by (simp add: validateSettings_def canonicalizeSynonyms_def canonicalizeSettings.simps
      checkProposedSettings.simps)

text \<open>
  Claim C3. The walk does raise. The proposal
  \<^verbatim>\<open>{"kubernetes": {"version": {"toString": 1}}}\<close> is JSON; the version canonicalizer
  hands the object to \<^verbatim>\<open>RegExp.prototype.exec\<close>, which converts it to a string, and the
  conversion throws a \<^verbatim>\<open>TypeError\<close> that nothing catches: only \<^verbatim>\<open>checkWSLIntegrations\<close>
  has a \<^verbatim>\<open>try\<close>. And a violation can go unreported: with \<^verbatim>\<open>{"kubernetes": null}\<close> the
  test \<^verbatim>\<open>typeof null === 'object'\<close> sends the walk into \<^verbatim>\<open>null\<close>, where there is no key
  to visit, and no error is appended.
\<close>

theorem validateSettings_throws:
  "validateSettings sample_validator sample_current bad_version =
     Inl (TypeError ''Cannot convert object to primitive value'') \<and>
   validateSettings sample_validator sample_current null_section = Inr (False, [])"
  by code_simp

subsection \<open>The leaf validators\<close>

text \<open>
  The range check on every desired value that is not an object or an array: a number that
  is below neither bound and above neither bound passes, with the changed flag the
  comparison with the current value; everything else gets one error and no change.
\<close>

lemma checkNumber_primitive:
  assumes "typeof desired \<noteq> ''object''"
  shows "\<exists>s. to_str this desired = Inr s \<and>
     checkNumber this lo hi cur desired errors fqname =
       (if \<exists>d. desired = Num d \<and> \<not> num_lt d lo \<and> \<not> num_lt hi d
        then Inr (differs cur desired, errors)
        else Inr (False, errors @ [''Invalid value for '' @ fqname @ '': <'' @ s @ ''>'']))"
proof -
  from to_str_primitive [OF assms] obtain s where s: "to_str this desired = Inr s" ..
  then have "checkNumber this lo hi cur desired errors fqname =
       (if \<exists>d. desired = Num d \<and> \<not> num_lt d lo \<and> \<not> num_lt hi d
        then Inr (differs cur desired, errors)
        else Inr (False, errors @ [''Invalid value for '' @ fqname @ '': <'' @ s @ ''>'']))"
    by (cases desired)
       (auto simp: checkNumber_def invalidSetting_def invalidSettingMessage_def)
  with s show ?thesis by blast
qed

text \<open>
  Claim C2. The range check lets \<^verbatim>\<open>NaN\<close> through: \<^verbatim>\<open>typeof NaN\<close> is \<^verbatim>\<open>number\<close> and
  both comparisons with the bounds are false, so the check for the port, with the
  current port 6443 and the desired value \<^verbatim>\<open>NaN\<close>, appends no error and reports a change.
\<close>

theorem checkNumber_NaN:
  "checkNumber this (Finite 1) (Finite 65535) (Data (Num (Finite 6443))) (Num NaN) errors fqname =
     Inr (True, errors)"
  by (simp add: checkNumber_def)

text \<open>
  Claim C5. Whatever the current and the desired value, \<^verbatim>\<open>checkUnchanged\<close> returns, and
  returns \<open>changed = false\<close>; so does \<^verbatim>\<open>checkWSLIntegrations\<close>. Neither of them throws.
\<close>

theorem immutable_checks_never_changed:
  "(\<exists>errors'. checkUnchanged this c d errors fqname = Inr (False, errors')) \<and>
   (\<exists>errors'. checkWSLIntegrations this c d errors fqname = Inr (False, errors'))"
  using checkWSLIntegrations_total [of this c d errors fqname]
  by (simp add: checkUnchanged_def)

text \<open>
  Claim C6. Two maps with the same two entries in different insertion order: the keys
  are \<^verbatim>\<open>a\<close> and \<^verbatim>\<open>a,b\<close>, the values \<^verbatim>\<open>b,c\<close> and \<^verbatim>\<open>c\<close>. The default sort compares the
  entries as the strings \<^verbatim>\<open>a,b,c\<close> and \<^verbatim>\<open>a,b,c\<close>, leaves each list in its own order, the
  serializations differ and the check appends the unsupported-change error.
\<close>

theorem checkWSLIntegrations_order:
  "checkWSLIntegrations this
     (Data (Obj [(''a'', Str ''b,c''), (''a,b'', Str ''c'')]))
     (Obj [(''a,b'', Str ''c''), (''a'', Str ''b,c'')]) errors fqname =
   Inr (False, errors @ [notSupported fqname])"
  by (simp add: checkWSLIntegrations_def stableSerializeWSLIntegrations_def object_entries_def
      js_sort_def json_quote_def json_escape_def dq_def)

text \<open>
  Claim C8. With the current engine \<^verbatim>\<open>moby\<close> and the desired engine \<^verbatim>\<open>docker\<close> the check
  appends the error that names the three engines and returns \<open>changed = false\<close>; and the
  desired values it lets through without touching the error list are exactly the strings
  \<^verbatim>\<open>containerd\<close> and \<^verbatim>\<open>moby\<close>.
\<close>

theorem checkContainerEngine_accepts:
  "checkContainerEngine this (Data (Str ''moby'')) (Str ''docker'') errors fqname =
     Inr (False, errors @
       [''Invalid value for '' @ fqname @ '': <docker>; must be '' @
        sq @ ''containerd'' @ sq @ '', '' @ sq @ ''docker'' @ sq @ '', or '' @ sq @ ''moby'' @ sq]) \<and>
   ((\<exists>changed. checkContainerEngine this c d errors fqname = Inr (changed, errors)) \<longleftrightarrow>
      (d = Str ''containerd'' \<or> d = Str ''moby''))"
  by (cases d) (auto simp: checkContainerEngine_def split: sum.splits)

theorem checkContainerEngine_accepts_witness:
  "checkContainerEngine sample_validator (Data (Str ''moby'')) (Str ''containerd'') [] ''kubernetes.containerEngine'' =
     Inr (True, []) \<and>
   (\<exists>changed. checkContainerEngine sample_validator (Data (Str ''moby'')) (Str ''containerd'') []
       ''kubernetes.containerEngine'' = Inr (changed, []))"
proof -
  have "Str ''containerd'' = Str ''containerd'' \<or> Str ''containerd'' = Str ''moby''" by simp
  with checkContainerEngine_accepts [of sample_validator "[]" "''kubernetes.containerEngine''"
      "Data (Str ''moby'')" "Str ''containerd''"]
  have "\<exists>changed. checkContainerEngine sample_validator (Data (Str ''moby'')) (Str ''containerd'') []
       ''kubernetes.containerEngine'' = Inr (changed, [])"
    by blast
  moreover have "checkContainerEngine sample_validator (Data (Str ''moby'')) (Str ''containerd'') []
      ''kubernetes.containerEngine'' = Inr (True, [])"
    by (simp add: checkContainerEngine_def)
  ultimately show ?thesis by blast
qed

subsection \<open>Keys the tables inherit\<close>

text \<open>
  Claim C4. The key \<^verbatim>\<open>toString\<close> is in no table of the schema, yet
  \<^verbatim>\<open>'toString' in allowedSettings\<close> holds, because the operator follows the prototype
  chain. The walk takes \<^verbatim>\<open>Object.prototype.toString\<close> for the validator of that key and
  calls it; the result, the string \<^verbatim>\<open>[object Object]\<close>, is truthy and becomes
  \<^verbatim>\<open>changeNeeded\<close>. For any current settings object, the proposal
  \<^verbatim>\<open>{"toString": 1}\<close> is answered \<open>ok = true\<close>, whereas the same proposal without
  the unknown key is the empty one and is answered \<open>ok = false\<close>.
\<close>

theorem validateSettings_inherited_key:
  "validateSettings this (Obj kvs) (Obj [(''toString'', Num (Finite 1))]) = Inr (True, []) \<and>
   validateSettings this (Obj kvs) (Obj []) = Inr (False, [])"
  by (simp add: validateSettings_def canonicalizeSynonyms_def synonymsTable_def allowedSettings_def
      canonicalizeSettings.simps checkProposedSettings.simps
      proto_entry_def builtin_named_def inherited_def split: option.splits)

subsection \<open>Canonicalization\<close>

text \<open>
  Claim C7. A second canonicalization changes nothing: if \<^verbatim>\<open>canonicalizeSynonyms\<close> turns
  the proposed tree \<open>p\<close> into \<open>p'\<close>, it turns \<open>p'\<close> into \<open>p'\<close>. The same holds for each leaf
  canonicalizer: the version, the container engine and the boolean one map a value to
  a value they leave alone.
\<close>

theorem canonicalizeSynonyms_idempotent:
  "(canonicalizeSynonyms this p = Inr p' \<longrightarrow> canonicalizeSynonyms this p' = Inr p') \<and>
   (canonicalizeKubernetesVersion this v = Inr v' \<longrightarrow> canonicalizeKubernetesVersion this v' = Inr v') \<and>
   canonicalizeContainerEngine (canonicalizeContainerEngine v) = canonicalizeContainerEngine v \<and>
   canonicalizeBool (canonicalizeBool v) = canonicalizeBool v"
  using canon_idem [OF synonymsTable_ok, of this p p'] canonicalizeKubernetesVersion_fixed [of this v v']
  by (auto simp: canonicalizeSynonyms_def canonicalizeContainerEngine_def canonicalizeBool_def)

theorem canonicalizeSynonyms_idempotent_witness:
  "canonicalizeSynonyms sample_validator versioned =
     Inr (Obj [(''kubernetes'', Obj [(''version'', Str ''1.2.3''), (''enabled'', Bool True)])]) \<and>
   canonicalizeSynonyms sample_validator
     (Obj [(''kubernetes'', Obj [(''version'', Str ''1.2.3''), (''enabled'', Bool True)])]) =
     Inr (Obj [(''kubernetes'', Obj [(''version'', Str ''1.2.3''), (''enabled'', Bool True)])]) \<and>
   canonicalizeKubernetesVersion sample_validator (Str ''v1.2.3+k3s1'') = Inr (Str ''1.2.3'') \<and>
   canonicalizeKubernetesVersion sample_validator (Str ''1.2.3'') = Inr (Str ''1.2.3'')"
proof -
  have a: "canonicalizeSynonyms sample_validator versioned =
     Inr (Obj [(''kubernetes'', Obj [(''version'', Str ''1.2.3''), (''enabled'', Bool True)])])"
    by code_simp
  have b: "canonicalizeKubernetesVersion sample_validator (Str ''v1.2.3+k3s1'') = Inr (Str ''1.2.3'')"
    by code_simp
  from canonicalizeSynonyms_idempotent [of sample_validator versioned
      "Obj [(''kubernetes'', Obj [(''version'', Str ''1.2.3''), (''enabled'', Bool True)])]"
      "Str ''v1.2.3+k3s1''" "Str ''1.2.3''"] a b
  show ?thesis by blast
qed

text \<open>
  Claim C10. Canonicalization keeps the keys of the proposed tree and changes at most the
  values at the four synonym positions: the tree before and the tree after have the same
  mask, and the same keys at the top.
\<close>

theorem canonicalizeSynonyms_frame:
  "canonicalizeSynonyms this p = Inr p' \<Longrightarrow>
   mask_synonyms p' = mask_synonyms p \<and> map fst (for_in p') = map fst (for_in p)"
proof -
  assume a: "canonicalizeSynonyms this p = Inr p'"
  then have m: "mask_synonyms p' = mask_synonyms p" by (rule canon_frame)
  have "map fst (for_in (mask_synonyms q)) = map fst (for_in q)" for q
    by (cases q) (simp_all add: mask_synonyms_def mask_entries_def comp_def)
  with m show ?thesis by metis
qed

theorem canonicalizeSynonyms_frame_witness:
  "canonicalizeSynonyms sample_validator versioned =
     Inr (Obj [(''kubernetes'', Obj [(''version'', Str ''1.2.3''), (''enabled'', Bool True)])]) \<and>
   mask_synonyms (Obj [(''kubernetes'', Obj [(''version'', Str ''1.2.3''), (''enabled'', Bool True)])]) =
     mask_synonyms versioned"
proof -
  have a: "canonicalizeSynonyms sample_validator versioned =
     Inr (Obj [(''kubernetes'', Obj [(''version'', Str ''1.2.3''), (''enabled'', Bool True)])])"
    by code_simp
  from canonicalizeSynonyms_frame [OF a] a show ?thesis by blast
qed

end
